theory Spec2Isabelle
  imports Main
begin

section \<open>Data model\<close>

text \<open>
  The lifecycle of an influencer inside a product order (a campaign or a survey), as
  \<^verbatim>\<open>CampaignService\<close> (campaign.service.ts) and \<^verbatim>\<open>SurveysService\<close> implement it on
  top of the ORM. The database is a record of tables, every table a list of rows. An
  operation takes the database and returns its result (an error or a value) together
  with the database it leaves behind, so that a failure after a write keeps the write.

  The enum \<^verbatim>\<open>ProductOrderInfluencerStatus\<close> is imported by the services from a file
  that is not among the sources; its members are the names the services use. The
  members are taken to have pairwise different numbers, so that \<^verbatim>\<open>===\<close> on a status is
  equality of the constructors. The numbers themselves are read only by the
  comparison \<^verbatim>\<open>status < Invited\<close> of removeInfluencerSelf, which takes the numbering
  as a parameter.
\<close>

datatype ProductOrderInfluencerStatus =
    Added | Invited | Matching | NotSelected | Withdrawn | Declined
  | ToBeSubmitted | ToBeAnswered | ToBeApproved | Approved | NotApproved
  | ToBePaid | Paid | Removed

datatype Status = InPreparation | OnGoing | Finished | Archived

text \<open>
  Modelled from the spec: the numbers of the enum \<^verbatim>\<open>Status\<close> (campaign/enums/status.enum.ts
  is not among the sources). The spec orders the coarse lifecycle as
  InPreparation, OnGoing, Finished, Archived, later states numerically greater.
\<close>

fun statusNumber :: "Status \<Rightarrow> nat" where
  "statusNumber InPreparation = 0"
| "statusNumber OnGoing = 1"
| "statusNumber Finished = 2"
| "statusNumber Archived = 3"

text \<open>The two services; where their methods differ only in constants, one definition
  takes the service as a parameter.\<close>

datatype service = CampaignService | SurveysService

record PlatformProductOrderInfluencer =
  poiId :: nat
  productOrderId :: nat
  influencerId :: nat
  agreedAmount :: int
  currency :: nat
  status :: ProductOrderInfluencerStatus

record PlatformProductOrder =
  orderId :: nat
  orderStatus :: Status

text \<open>A campaign or a survey row: its id, its order and its post type (campaign) or
  survey type (survey), which may be undefined.\<close>

record Product =
  productId :: nat
  platformProductOrderId :: nat
  declaredType :: "nat option"

record User =
  userId :: nat
  userCurrency :: nat
  userStatus :: nat

text \<open>An influencer row with its desired amounts, each a pair of a post type (or survey
  type) and the amount.\<close>

record Influencer =
  infId :: nat
  infUserId :: nat
  influencerCampaignAmounts :: "(nat \<times> int) list"
  influencerSurveyAmounts :: "(nat \<times> int) list"

record CampaignInfluencerPerformance =
  cipCampaignId :: nat
  cipInfluencerId :: nat
  submissionLink :: string
  trackingCode :: string
  websiteClick :: nat

record SurveyResponse =
  srUserId :: nat
  srSurveyId :: nat
  surveyQuestionId :: nat
  surveyOptionId :: nat
  surveyResponseText :: string

record db =
  users :: "User list"
  influencers :: "Influencer list"
  platformProductOrders :: "PlatformProductOrder list"
  campaigns :: "Product list"
  surveys :: "Product list"
  platformProductOrderInfluencers :: "PlatformProductOrderInfluencer list"
  campaignInfluencerPerformances :: "CampaignInfluencerPerformance list"
  surveyResponses :: "SurveyResponse list"

text \<open>The authenticated caller: the user's id and, when the user is an influencer, the
  influencer's id.\<close>

record UserWithInfluencer =
  callerId :: nat
  callerInfluencer :: "nat option"

subsection \<open>Errors\<close>

text \<open>
  Every exception of the source is a value. \<open>PrismaNotFound\<close> is what
  \<^verbatim>\<open>findUniqueOrThrow\<close> raises, \<open>PrismaUniqueViolation\<close> a write that breaks a
  uniqueness constraint, \<open>PrismaFailure\<close> any other failure of a statement or of a
  commit, \<open>TypeError\<close> the read of a property of \<^verbatim>\<open>undefined\<close>. A BadRequest
  carries what its message tells: the ids that are not in the order, or how many
  participants have a wrong status (the message prints those rows as objects).
\<close>

datatype reason =
    NotAnInfluencer | NotInProduct "nat list" | InvalidState nat | NotInvited
  | TypeNotDefined

datatype error =
    PrismaNotFound | PrismaUniqueViolation | PrismaFailure | TypeError
  | ApplicationException
  | BadRequest reason
  | Forbidden
  | NotFound "nat list"
  | Conflict

fun isBadRequest :: "error + 'a \<Rightarrow> bool" where
  "isBadRequest (Inl (BadRequest r)) = True"
| "isBadRequest other = False"

section \<open>Queries\<close>

definition products :: "service \<Rightarrow> db \<Rightarrow> Product list" where
  "products svc d = (case svc of CampaignService \<Rightarrow> campaigns d | SurveysService \<Rightarrow> surveys d)"

text \<open>\<^verbatim>\<open>findUniqueOrThrow({ where: { id } })\<close> with the order of the row joined in. The
  relation to the order is required, so a row without its order only shows as the
  TypeError of the first read through it.\<close>

definition findUniqueOrThrow ::
  "service \<Rightarrow> db \<Rightarrow> nat \<Rightarrow> error + (Product \<times> PlatformProductOrder)" where
  "findUniqueOrThrow svc d pid =
     (case find (\<lambda>c. productId c = pid) (products svc d) of
        None \<Rightarrow> Inl PrismaNotFound
      | Some c \<Rightarrow>
          (case find (\<lambda>ord. orderId ord = platformProductOrderId c) (platformProductOrders d) of
             None \<Rightarrow> Inl TypeError
           | Some ord \<Rightarrow> Inr (c, ord)))"

text \<open>The participants of an order that a nested \<^verbatim>\<open>where\<close> selects: by influencer id
  (one id, or a list), or by the user id of the influencer.\<close>

definition ofInfluencer ::
  "db \<Rightarrow> nat \<Rightarrow> nat \<Rightarrow> PlatformProductOrderInfluencer list" where
  "ofInfluencer d oid i =
     filter (\<lambda>p. productOrderId p = oid \<and> influencerId p = i) (platformProductOrderInfluencers d)"

definition ofInfluencerIdIn ::
  "db \<Rightarrow> nat \<Rightarrow> nat list \<Rightarrow> PlatformProductOrderInfluencer list" where
  "ofInfluencerIdIn d oid ids =
     filter (\<lambda>p. productOrderId p = oid \<and> influencerId p \<in> set ids)
       (platformProductOrderInfluencers d)"

definition influencerUserId :: "db \<Rightarrow> PlatformProductOrderInfluencer \<Rightarrow> nat option" where
  "influencerUserId d p =
     map_option infUserId (find (\<lambda>i. infId i = influencerId p) (influencers d))"

definition ofInfluencerUserIdIn ::
  "db \<Rightarrow> nat \<Rightarrow> nat list \<Rightarrow> PlatformProductOrderInfluencer list" where
  "ofInfluencerUserIdIn d oid ids =
     filter (\<lambda>p. productOrderId p = oid \<and>
                 (case influencerUserId d p of None \<Rightarrow> False | Some u \<Rightarrow> u \<in> set ids))
       (platformProductOrderInfluencers d)"

section \<open>Writes\<close>

text \<open>\<^verbatim>\<open>update({ data: { status }, where: { id } })\<close> and the \<^verbatim>\<open>Promise.all\<close> of one
  such update per selected row.\<close>

definition updateStatus ::
  "nat \<Rightarrow> ProductOrderInfluencerStatus \<Rightarrow> PlatformProductOrderInfluencer list
   \<Rightarrow> PlatformProductOrderInfluencer list" where
  "updateStatus i s ps = map (\<lambda>p. if poiId p = i then p\<lparr>status := s\<rparr> else p) ps"

definition updateEach ::
  "PlatformProductOrderInfluencer list \<Rightarrow> ProductOrderInfluencerStatus
   \<Rightarrow> PlatformProductOrderInfluencer list \<Rightarrow> PlatformProductOrderInfluencer list" where
  "updateEach sel s ps = fold (\<lambda>q. updateStatus (poiId q) s) sel ps"

text \<open>\<^verbatim>\<open>updateMany({ data: { status }, where })\<close>: the rows after the write, and the count
  of rows the filter matched.\<close>

definition updateMany ::
  "(PlatformProductOrderInfluencer \<Rightarrow> bool) \<Rightarrow> ProductOrderInfluencerStatus
   \<Rightarrow> PlatformProductOrderInfluencer list \<Rightarrow> PlatformProductOrderInfluencer list" where
  "updateMany w s ps = map (\<lambda>p. if w p then p\<lparr>status := s\<rparr> else p) ps"

definition countMany ::
  "(PlatformProductOrderInfluencer \<Rightarrow> bool) \<Rightarrow> PlatformProductOrderInfluencer list \<Rightarrow> nat" where
  "countMany w ps = length (filter w ps)"

definition setParticipants :: "db \<Rightarrow> PlatformProductOrderInfluencer list \<Rightarrow> db" where
  "setParticipants d ps = d\<lparr>platformProductOrderInfluencers := ps\<rparr>"

section \<open>Invitation\<close>

text \<open>\<^verbatim>\<open>inviteInfluencers\<close> of both services (the same code).\<close>

definition inviteInfluencers ::
  "service \<Rightarrow> db \<Rightarrow> nat \<Rightarrow> nat list
   \<Rightarrow> (error + PlatformProductOrderInfluencer list) \<times> db" where
  "inviteInfluencers svc d pid influencerIds =
     (case findUniqueOrThrow svc d pid of
        Inl e \<Rightarrow> (Inl e, d)
      | Inr (c, ord) \<Rightarrow>
          (let campaignInfluencers = ofInfluencerIdIn d (orderId ord) influencerIds;
               userInfluencersNotInCampaign =
                 filter (\<lambda>i. find (\<lambda>p. influencerId p = i) campaignInfluencers = None)
                   influencerIds;
               campaignInfluencersWithInvalidStatus =
                 filter (\<lambda>p. status p \<notin> set [Added, Invited]) campaignInfluencers
           in if userInfluencersNotInCampaign \<noteq> []
              then (Inl (BadRequest (NotInProduct userInfluencersNotInCampaign)), d)
              else if campaignInfluencersWithInvalidStatus \<noteq> []
              then (Inl (BadRequest (InvalidState (length campaignInfluencersWithInvalidStatus))), d)
              else (Inr (map (\<lambda>p. p\<lparr>status := Invited\<rparr>) campaignInfluencers),
                    setParticipants d
                      (updateEach campaignInfluencers Invited (platformProductOrderInfluencers d)))))"

text \<open>The status an accepted invitation leads to: Matching in a campaign, ToBeAnswered
  in a survey ("next state is different than in a campaign").\<close>

fun acceptedStatus :: "service \<Rightarrow> ProductOrderInfluencerStatus" where
  "acceptedStatus CampaignService = Matching"
| "acceptedStatus SurveysService = ToBeAnswered"

text \<open>\<^verbatim>\<open>acceptInvitation\<close> and \<^verbatim>\<open>declineInvitation\<close> differ in the status they
  write; \<open>answerInvitation\<close> is their common body.\<close>

definition answerInvitation ::
  "ProductOrderInfluencerStatus \<Rightarrow> service \<Rightarrow> db \<Rightarrow> nat \<Rightarrow> UserWithInfluencer
   \<Rightarrow> (error + PlatformProductOrderInfluencer) \<times> db" where
  "answerInvitation next svc d pid user =
     (case callerInfluencer user of
        None \<Rightarrow> (Inl (BadRequest NotAnInfluencer), d)
      | Some i \<Rightarrow>
          (case findUniqueOrThrow svc d pid of
             Inl e \<Rightarrow> (Inl e, d)
           | Inr (c, ord) \<Rightarrow>
               (case ofInfluencer d (orderId ord) i of
                  [] \<Rightarrow> (Inl (BadRequest (NotInProduct [i])), d)
                | campaignInfluencer # rest \<Rightarrow>
                    if status campaignInfluencer \<noteq> Invited
                    then (Inl (BadRequest NotInvited), d)
                    else (Inr (campaignInfluencer\<lparr>status := next\<rparr>),
                          setParticipants d
                            (updateStatus (poiId campaignInfluencer) next
                               (platformProductOrderInfluencers d))))))"

definition acceptInvitation ::
  "service \<Rightarrow> db \<Rightarrow> nat \<Rightarrow> UserWithInfluencer
   \<Rightarrow> (error + PlatformProductOrderInfluencer) \<times> db" where
  "acceptInvitation svc = answerInvitation (acceptedStatus svc) svc"

definition declineInvitation ::
  "service \<Rightarrow> db \<Rightarrow> nat \<Rightarrow> UserWithInfluencer
   \<Rightarrow> (error + PlatformProductOrderInfluencer) \<times> db" where
  "declineInvitation svc = answerInvitation Declined svc"

section \<open>Removal\<close>

text \<open>The statuses each bucket of \<^verbatim>\<open>removeInfluencers\<close> selects: the campaign's lists
  name Matching and ToBeSubmitted, the survey's ToBeAnswered and no Matching.\<close>

fun notSelectedFrom :: "service \<Rightarrow> ProductOrderInfluencerStatus list" where
  "notSelectedFrom CampaignService = [Added, Invited, Matching]"
| "notSelectedFrom SurveysService = [Added, Invited]"

fun removedFrom :: "service \<Rightarrow> ProductOrderInfluencerStatus list" where
  "removedFrom CampaignService = [ToBeSubmitted, ToBeApproved, Approved, ToBePaid, Paid]"
| "removedFrom SurveysService = [ToBeAnswered, ToBeApproved, Approved, ToBePaid, Paid]"

definition inBucket ::
  "nat \<Rightarrow> nat list \<Rightarrow> ProductOrderInfluencerStatus list
   \<Rightarrow> PlatformProductOrderInfluencer \<Rightarrow> bool" where
  "inBucket oid ids sts p =
     (productOrderId p = oid \<and> influencerId p \<in> set ids \<and> status p \<in> set sts)"

text \<open>\<^verbatim>\<open>removeInfluencers\<close>: the two \<^verbatim>\<open>updateMany\<close> run under one \<^verbatim>\<open>Promise.all\<close>;
  here the NotSelected bucket is written first (\<open>removeInfluencers_order\<close> below shows
  that the other order leaves the same rows and the same counts).\<close>

definition removeInfluencers ::
  "service \<Rightarrow> db \<Rightarrow> nat \<Rightarrow> nat list \<Rightarrow> (error + nat) \<times> db" where
  "removeInfluencers svc d pid influencerIds =
     (case findUniqueOrThrow svc d pid of
        Inl e \<Rightarrow> (Inl e, d)
      | Inr (c, ord) \<Rightarrow>
          (let campaignInfluencers = ofInfluencerIdIn d (orderId ord) influencerIds;
               userInfluencersNotInCampaign =
                 filter (\<lambda>i. find (\<lambda>p. influencerId p = i) campaignInfluencers = None)
                   influencerIds
           in if userInfluencersNotInCampaign \<noteq> []
              then (Inl (BadRequest (NotInProduct userInfluencersNotInCampaign)), d)
              else
                (let w1 = inBucket (platformProductOrderId c) influencerIds (notSelectedFrom svc);
                     w2 = inBucket (platformProductOrderId c) influencerIds (removedFrom svc);
                     ps0 = platformProductOrderInfluencers d;
                     influencersNotSelected = countMany w1 ps0;
                     ps1 = updateMany w1 NotSelected ps0;
                     influencersRemoved = countMany w2 ps1;
                     ps2 = updateMany w2 Removed ps1
                 in (Inr (influencersNotSelected + influencersRemoved), setParticipants d ps2))))"

text \<open>\<^verbatim>\<open>removeInfluencerSelf\<close> of both services. \<open>num\<close> is the numbering of the status
  enum, read by \<^verbatim>\<open>status < Invited\<close>. The first element of the caller's participant
  rows is read without a check: on an empty list the read of \<^verbatim>\<open>influencerId\<close> is a
  TypeError.\<close>

definition removeInfluencerSelf ::
  "(ProductOrderInfluencerStatus \<Rightarrow> int) \<Rightarrow> service \<Rightarrow> db \<Rightarrow> nat \<Rightarrow> UserWithInfluencer
   \<Rightarrow> (error + PlatformProductOrderInfluencer) \<times> db" where
  "removeInfluencerSelf num svc d pid user =
     (case callerInfluencer user of
        None \<Rightarrow> (Inl (BadRequest NotAnInfluencer), d)
      | Some i \<Rightarrow>
          (case findUniqueOrThrow svc d pid of
             Inl e \<Rightarrow> (Inl e, d)
           | Inr (c, ord) \<Rightarrow>
               (case ofInfluencer d (orderId ord) i of
                  [] \<Rightarrow> (Inl TypeError, d)
                | campaignInfluencer # rest \<Rightarrow>
                    if i \<noteq> influencerId campaignInfluencer \<or>
                       num (status campaignInfluencer) < num Invited
                    then (Inl ApplicationException, d)
                    else if status campaignInfluencer = Invited
                    then (Inl Forbidden, d)
                    else (Inr (campaignInfluencer\<lparr>status := Withdrawn\<rparr>),
                          setParticipants d
                            (updateStatus (poiId campaignInfluencer) Withdrawn
                               (platformProductOrderInfluencers d))))))"

section \<open>Matching, submission, approval\<close>

text \<open>\<^verbatim>\<open>CampaignService.confirmMatch\<close>; the ids are user ids here.\<close>

definition confirmMatch ::
  "db \<Rightarrow> nat \<Rightarrow> nat list \<Rightarrow> (error + PlatformProductOrderInfluencer list) \<times> db" where
  "confirmMatch d pid influencerIds =
     (case findUniqueOrThrow CampaignService d pid of
        Inl e \<Rightarrow> (Inl e, d)
      | Inr (c, ord) \<Rightarrow>
          (let campaignInfluencers = ofInfluencerUserIdIn d (orderId ord) influencerIds;
               userInfluencersNotInCampaign =
                 filter (\<lambda>i. find (\<lambda>p. influencerUserId d p = Some i) campaignInfluencers = None)
                   influencerIds;
               campaignInfluencersWithInvalidStatus =
                 filter (\<lambda>p. status p \<noteq> Matching) campaignInfluencers
           in if userInfluencersNotInCampaign \<noteq> []
              then (Inl (BadRequest (NotInProduct userInfluencersNotInCampaign)), d)
              else if campaignInfluencersWithInvalidStatus \<noteq> []
              then (Inl (BadRequest (InvalidState (length campaignInfluencersWithInvalidStatus))), d)
              else (Inr (map (\<lambda>p. p\<lparr>status := ToBeSubmitted\<rparr>) campaignInfluencers),
                    setParticipants d
                      (updateEach campaignInfluencers ToBeSubmitted
                         (platformProductOrderInfluencers d)))))"

subsection \<open>Transactions\<close>

text \<open>
  \<^verbatim>\<open>$transaction(async (tx) => ...)\<close>: the callback's writes through \<^verbatim>\<open>tx\<close> take
  effect together when the callback has returned and the commit succeeds, and not at
  all when the callback throws or the commit fails. A write the callback makes through
  \<^verbatim>\<open>this.prismaService\<close> is a statement of its own, committed when it returns. The
  callback is given as its outcome: its result, the database with the writes made
  outside \<^verbatim>\<open>tx\<close>, and the writes made through \<^verbatim>\<open>tx\<close>.

  A \<open>fault\<close> says which statement of an operation the database fails, if any.
\<close>

datatype fault = NoFault | FirstWriteFails | SecondWriteFails | CommitFails

definition transaction ::
  "bool \<Rightarrow> (error + 'a) \<times> db \<times> (db \<Rightarrow> db) \<Rightarrow> (error + 'a) \<times> db" where
  "transaction commitFails body =
     (case body of
        (Inl e, d', w) \<Rightarrow> (Inl e, d')
      | (Inr v, d', w) \<Rightarrow> if commitFails then (Inl PrismaFailure, d') else (Inr v, w d'))"

definition txUpdateStatus :: "nat \<Rightarrow> ProductOrderInfluencerStatus \<Rightarrow> db \<Rightarrow> db" where
  "txUpdateStatus i s x = setParticipants x (updateStatus i s (platformProductOrderInfluencers x))"

text \<open>The upsert of the campaign's performance row, keyed by campaign and influencer.\<close>

definition performanceOf ::
  "nat \<Rightarrow> nat \<Rightarrow> CampaignInfluencerPerformance \<Rightarrow> bool" where
  "performanceOf cid i r = (cipCampaignId r = cid \<and> cipInfluencerId r = i)"

definition newPerformance ::
  "(nat \<Rightarrow> string) \<Rightarrow> nat \<Rightarrow> nat \<Rightarrow> string \<Rightarrow> CampaignInfluencerPerformance" where
  "newPerformance idToPseudostring cid i link =
     \<lparr>cipCampaignId = cid, cipInfluencerId = i, submissionLink = link,
      trackingCode = idToPseudostring i, websiteClick = 0\<rparr>"

definition upsertPerformance ::
  "(nat \<Rightarrow> string) \<Rightarrow> nat \<Rightarrow> nat \<Rightarrow> string \<Rightarrow> db \<Rightarrow> db" where
  "upsertPerformance idToPseudostring cid i link x =
     x\<lparr>campaignInfluencerPerformances :=
        (if list_ex (performanceOf cid i) (campaignInfluencerPerformances x)
         then map (\<lambda>r. if performanceOf cid i r then r\<lparr>submissionLink := link\<rparr> else r)
                (campaignInfluencerPerformances x)
         else campaignInfluencerPerformances x @ [newPerformance idToPseudostring cid i link])\<rparr>"

definition upsertedPerformance ::
  "(nat \<Rightarrow> string) \<Rightarrow> nat \<Rightarrow> nat \<Rightarrow> string \<Rightarrow> db \<Rightarrow> CampaignInfluencerPerformance" where
  "upsertedPerformance idToPseudostring cid i link x =
     (case find (performanceOf cid i) (campaignInfluencerPerformances x) of
        None \<Rightarrow> newPerformance idToPseudostring cid i link
      | Some r \<Rightarrow> r\<lparr>submissionLink := link\<rparr>)"

text \<open>\<^verbatim>\<open>CampaignService.submitInfluencerData\<close>. \<open>idToPseudostring\<close> is the helper of
  that name (its file is not among the sources). Both writes go through \<^verbatim>\<open>tx\<close>.\<close>

definition submitInfluencerData ::
  "fault \<Rightarrow> (nat \<Rightarrow> string) \<Rightarrow> db \<Rightarrow> nat \<Rightarrow> UserWithInfluencer \<Rightarrow> string
   \<Rightarrow> (error + CampaignInfluencerPerformance) \<times> db" where
  "submitInfluencerData flt idToPseudostring d campaignId user link =
     (case callerInfluencer user of
        None \<Rightarrow> (Inl (BadRequest NotAnInfluencer), d)
      | Some i \<Rightarrow>
          (case findUniqueOrThrow CampaignService d campaignId of
             Inl e \<Rightarrow> (Inl e, d)
           | Inr (c, ord) \<Rightarrow>
               (case ofInfluencer d (orderId ord) i of
                  [] \<Rightarrow> (Inl TypeError, d)
                | campaignInfluencer # rest \<Rightarrow>
                    if status campaignInfluencer \<notin> set [ToBeSubmitted, NotApproved]
                    then (Inl Forbidden, d)
                    else
                      transaction (flt = CommitFails)
                        (let w1 = txUpdateStatus (poiId campaignInfluencer) ToBeApproved;
                             w2 = upsertPerformance idToPseudostring campaignId i link
                         in if flt = FirstWriteFails then (Inl PrismaFailure, d, (\<lambda>x. x))
                            else if flt = SecondWriteFails then (Inl PrismaFailure, d, w1)
                            else (Inr (upsertedPerformance idToPseudostring campaignId i link d),
                                  d, (\<lambda>x. w2 (w1 x)))))))"

text \<open>The upsert of the survey response, keyed by question, option and user.\<close>

definition responseOf :: "nat \<Rightarrow> nat \<Rightarrow> nat \<Rightarrow> SurveyResponse \<Rightarrow> bool" where
  "responseOf q opt u r = (surveyQuestionId r = q \<and> surveyOptionId r = opt \<and> srUserId r = u)"

definition newResponse :: "nat \<Rightarrow> nat \<Rightarrow> nat \<Rightarrow> nat \<Rightarrow> string \<Rightarrow> SurveyResponse" where
  "newResponse u sid q opt txt =
     \<lparr>srUserId = u, srSurveyId = sid, surveyQuestionId = q, surveyOptionId = opt,
      surveyResponseText = txt\<rparr>"

definition upsertResponse :: "nat \<Rightarrow> nat \<Rightarrow> nat \<Rightarrow> nat \<Rightarrow> string \<Rightarrow> db \<Rightarrow> db" where
  "upsertResponse u sid q opt txt x =
     x\<lparr>surveyResponses :=
        (if list_ex (responseOf q opt u) (surveyResponses x)
         then map (\<lambda>r. if responseOf q opt u r then r\<lparr>surveyResponseText := txt\<rparr> else r)
                (surveyResponses x)
         else surveyResponses x @ [newResponse u sid q opt txt])\<rparr>"

definition upsertedResponse ::
  "nat \<Rightarrow> nat \<Rightarrow> nat \<Rightarrow> nat \<Rightarrow> string \<Rightarrow> db \<Rightarrow> SurveyResponse" where
  "upsertedResponse u sid q opt txt x =
     (case find (responseOf q opt u) (surveyResponses x) of
        None \<Rightarrow> newResponse u sid q opt txt
      | Some r \<Rightarrow> r\<lparr>surveyResponseText := txt\<rparr>)"

text \<open>\<^verbatim>\<open>SurveysService.submitSurveyResult\<close>; the data are the question, the option and
  the response text.\<close>

definition submitSurveyResult ::
  "fault \<Rightarrow> db \<Rightarrow> nat \<Rightarrow> UserWithInfluencer \<Rightarrow> nat \<times> nat \<times> string
   \<Rightarrow> (error + SurveyResponse) \<times> db" where
  "submitSurveyResult flt d surveyId user dat =
     (case callerInfluencer user of
        None \<Rightarrow> (Inl (BadRequest NotAnInfluencer), d)
      | Some i \<Rightarrow>
          (case findUniqueOrThrow SurveysService d surveyId of
             Inl e \<Rightarrow> (Inl e, d)
           | Inr (c, ord) \<Rightarrow>
               (case ofInfluencer d (orderId ord) i of
                  [] \<Rightarrow> (Inl TypeError, d)
                | surveyInfluencer # rest \<Rightarrow>
                    if status surveyInfluencer \<notin> set [ToBeAnswered, NotApproved]
                    then (Inl Forbidden, d)
                    else
                      transaction (flt = CommitFails)
                        (let w1 = txUpdateStatus (poiId surveyInfluencer) ToBeApproved;
                             w2 = upsertResponse (callerId user) surveyId (fst dat) (fst (snd dat))
                                    (snd (snd dat))
                         in if flt = FirstWriteFails then (Inl PrismaFailure, d, (\<lambda>x. x))
                            else if flt = SecondWriteFails then (Inl PrismaFailure, d, w1)
                            else (Inr (upsertedResponse (callerId user) surveyId (fst dat)
                                         (fst (snd dat)) (snd (snd dat)) d),
                                  d, (\<lambda>x. w2 (w1 x)))))))"

text \<open>\<^verbatim>\<open>approveSubmission\<close> (campaign) and \<^verbatim>\<open>approveSurveyResult\<close> (survey): the named
  user ids are validated, then \<^verbatim>\<open>updateMany\<close> writes Approved with the order as its
  only filter.\<close>

definition approveSubmission ::
  "service \<Rightarrow> db \<Rightarrow> nat \<Rightarrow> nat list \<Rightarrow> (error + nat) \<times> db" where
  "approveSubmission svc d pid influencerIds =
     (case findUniqueOrThrow svc d pid of
        Inl e \<Rightarrow> (Inl e, d)
      | Inr (c, ord) \<Rightarrow>
          (let campaignInfluencers = ofInfluencerUserIdIn d (orderId ord) influencerIds;
               userInfluencersNotInCampaign =
                 filter (\<lambda>i. find (\<lambda>p. influencerUserId d p = Some i) campaignInfluencers = None)
                   influencerIds;
               campaignInfluencersWithInvalidStatus =
                 filter (\<lambda>p. status p \<notin> set [ToBeApproved, NotApproved]) campaignInfluencers;
               w = (\<lambda>p. productOrderId p = platformProductOrderId c)
           in if userInfluencersNotInCampaign \<noteq> []
              then (Inl (BadRequest (NotInProduct userInfluencersNotInCampaign)), d)
              else if campaignInfluencersWithInvalidStatus \<noteq> []
              then (Inl (BadRequest (InvalidState (length campaignInfluencersWithInvalidStatus))), d)
              else (Inr (countMany w (platformProductOrderInfluencers d)),
                    setParticipants d (updateMany w Approved (platformProductOrderInfluencers d)))))"

text \<open>\<^verbatim>\<open>disapproveSubmission\<close> (campaign, which returns nothing) and
  \<^verbatim>\<open>disapproveSurveyResult\<close> (survey, which returns the count).\<close>

definition disapproveSubmission ::
  "service \<Rightarrow> db \<Rightarrow> nat \<Rightarrow> nat list \<Rightarrow> (error + nat option) \<times> db" where
  "disapproveSubmission svc d pid influencerIds =
     (case findUniqueOrThrow svc d pid of
        Inl e \<Rightarrow> (Inl e, d)
      | Inr (c, ord) \<Rightarrow>
          (let campaignInfluencers = ofInfluencerUserIdIn d (orderId ord) influencerIds;
               userInfluencersNotInCampaign =
                 filter (\<lambda>i. find (\<lambda>p. influencerUserId d p = Some i) campaignInfluencers = None)
                   influencerIds;
               campaignInfluencersWithInvalidStatus =
                 filter (\<lambda>p. status p \<noteq> ToBeApproved) campaignInfluencers;
               w = (\<lambda>p. productOrderId p = platformProductOrderId c)
           in if userInfluencersNotInCampaign \<noteq> []
              then (Inl (BadRequest (NotInProduct userInfluencersNotInCampaign)), d)
              else if campaignInfluencersWithInvalidStatus \<noteq> []
              then (Inl (BadRequest (InvalidState (length campaignInfluencersWithInvalidStatus))), d)
              else (Inr (case svc of
                           CampaignService \<Rightarrow> None
                         | SurveysService \<Rightarrow> Some (countMany w (platformProductOrderInfluencers d))),
                    setParticipants d
                      (updateMany w NotApproved (platformProductOrderInfluencers d)))))"

section \<open>Finishing an order\<close>

definition setOrderStatus :: "db \<Rightarrow> nat \<Rightarrow> Status \<Rightarrow> db" where
  "setOrderStatus d oid s =
     d\<lparr>platformProductOrders :=
        map (\<lambda>ord. if orderId ord = oid then ord\<lparr>orderStatus := s\<rparr> else ord)
          (platformProductOrders d)\<rparr>"

definition txApprovedToBePaid :: "db \<Rightarrow> db" where
  "txApprovedToBePaid x =
     setParticipants x
       (updateMany (\<lambda>p. status p = Approved) ToBePaid (platformProductOrderInfluencers x))"

text \<open>\<^verbatim>\<open>finishCampaign\<close> and \<^verbatim>\<open>finishSurvey\<close>: inside the transaction's callback the
  \<^verbatim>\<open>updateMany\<close> goes through \<^verbatim>\<open>tx\<close>, with the status as its only filter, and the
  update of the order goes through \<^verbatim>\<open>this.prismaService\<close>.\<close>

definition finishCampaign ::
  "fault \<Rightarrow> service \<Rightarrow> db \<Rightarrow> nat \<Rightarrow> (error + Product) \<times> db" where
  "finishCampaign flt svc d pid =
     (case findUniqueOrThrow svc d pid of
        Inl e \<Rightarrow> (Inl e, d)
      | Inr (c, ord) \<Rightarrow>
          if orderStatus ord \<noteq> OnGoing then (Inl Forbidden, d)
          else if statusNumber (orderStatus ord) > statusNumber Finished then (Inl Forbidden, d)
          else
            transaction (flt = CommitFails)
              (if flt = FirstWriteFails then (Inl PrismaFailure, d, (\<lambda>x. x))
               else if flt = SecondWriteFails then (Inl PrismaFailure, d, txApprovedToBePaid)
               else (Inr c, setOrderStatus d (platformProductOrderId c) Finished,
                     txApprovedToBePaid)))"

section \<open>Adding influencers\<close>

text \<open>
  The upsert of a participant on the unique key (productOrderId, influencerId): a row
  with the key gets the amount and the currency; without one, a row at Added is
  inserted under a fresh id. \<open>raced\<close> lists the keys that another request inserts
  between this upsert's lookup and its insert: there the insert breaks the uniqueness
  constraint and the ORM raises.
\<close>

definition sameKey :: "nat \<Rightarrow> nat \<Rightarrow> PlatformProductOrderInfluencer \<Rightarrow> bool" where
  "sameKey oid i p = (productOrderId p = oid \<and> influencerId p = i)"

definition nextId :: "PlatformProductOrderInfluencer list \<Rightarrow> nat" where
  "nextId ps = Suc (fold max (map poiId ps) 0)"

definition upsert ::
  "(nat \<times> nat) list \<Rightarrow> nat \<Rightarrow> nat \<times> int \<times> nat \<Rightarrow> PlatformProductOrderInfluencer list
   \<Rightarrow> error + PlatformProductOrderInfluencer list" where
  "upsert raced oid a ps =
     (case a of (i, amount, cur) \<Rightarrow>
        if list_ex (sameKey oid i) ps
        then Inr (map (\<lambda>p. if sameKey oid i p then p\<lparr>agreedAmount := amount, currency := cur\<rparr>
                            else p) ps)
        else if (oid, i) \<in> set raced then Inl PrismaUniqueViolation
        else Inr (ps @ [\<lparr>poiId = nextId ps, productOrderId = oid, influencerId = i,
                         agreedAmount = amount, currency = cur, status = Added\<rparr>]))"

text \<open>\<^verbatim>\<open>Promise.all\<close> over one upsert per user: every upsert runs, none is undone when
  another one fails, and the call fails when one of them does.\<close>

fun upsertAll ::
  "(nat \<times> nat) list \<Rightarrow> nat \<Rightarrow> (nat \<times> int \<times> nat) list \<Rightarrow> PlatformProductOrderInfluencer list
   \<Rightarrow> error option \<times> PlatformProductOrderInfluencer list" where
  "upsertAll raced oid [] ps = (None, ps)"
| "upsertAll raced oid (a # as) ps =
     (case upsert raced oid a ps of
        Inl e \<Rightarrow> (Some e, snd (upsertAll raced oid as ps))
      | Inr ps' \<Rightarrow> upsertAll raced oid as ps')"

text \<open>The desired amounts a service reads: the campaign amounts by post type, the
  survey amounts by survey type.\<close>

fun desiredAmounts :: "service \<Rightarrow> Influencer \<Rightarrow> (nat \<times> int) list" where
  "desiredAmounts CampaignService infl = influencerCampaignAmounts infl"
| "desiredAmounts SurveysService infl = influencerSurveyAmounts infl"

text \<open>The arguments of the upserts, computed by the callback of \<^verbatim>\<open>map\<close> before any
  upsert runs: the influencer of the user and the first desired amount of the type.
  A user without an influencer, or an influencer without an amount of the type, is a
  TypeError (\<open>None\<close>).\<close>

fun upsertArgs :: "service \<Rightarrow> db \<Rightarrow> nat \<Rightarrow> User list \<Rightarrow> (nat \<times> int \<times> nat) list option" where
  "upsertArgs svc d t [] = Some []"
| "upsertArgs svc d t (u # us) =
     (case find (\<lambda>infl. infUserId infl = userId u) (influencers d) of
        None \<Rightarrow> None
      | Some infl \<Rightarrow>
          (case filter (\<lambda>a. fst a = t) (desiredAmounts svc infl) of
             [] \<Rightarrow> None
           | a # rest \<Rightarrow>
               map_option (\<lambda>as. (infId infl, snd a, userCurrency u) # as) (upsertArgs svc d t us)))"

text \<open>\<^verbatim>\<open>addInfluencers\<close> of both services; the ids are user ids. The value returned is
  the list of the upserted rows, here the rows of the keys after the writes.\<close>

definition addInfluencers ::
  "(nat \<times> nat) list \<Rightarrow> service \<Rightarrow> db \<Rightarrow> nat \<Rightarrow> nat list
   \<Rightarrow> (error + PlatformProductOrderInfluencer list) \<times> db" where
  "addInfluencers raced svc d pid influencerIds =
     (case findUniqueOrThrow svc d pid of
        Inl e \<Rightarrow> (Inl e, d)
      | Inr (c, ord) \<Rightarrow>
          if statusNumber (orderStatus ord) \<ge> statusNumber Finished then (Inl Forbidden, d)
          else
            (case declaredType c of
               None \<Rightarrow> (Inl (BadRequest TypeNotDefined), d)
             | Some t \<Rightarrow>
                 (let userInfluencers = filter (\<lambda>u. userId u \<in> set influencerIds) (users d);
                      userInfluencersNotExist =
                        filter (\<lambda>i. find (\<lambda>u. userId u = i) userInfluencers = None) influencerIds
                  in if userInfluencersNotExist \<noteq> []
                     then (Inl (NotFound userInfluencersNotExist), d)
                     else
                       (case upsertArgs svc d t userInfluencers of
                          None \<Rightarrow> (Inl TypeError, d)
                        | Some as \<Rightarrow>
                            (case upsertAll raced (platformProductOrderId c) as
                                    (platformProductOrderInfluencers d) of
                               (Some e, ps') \<Rightarrow> (Inl e, setParticipants d ps')
                             | (None, ps') \<Rightarrow>
                                 (Inr (concat (map (\<lambda>a. filter (sameKey (platformProductOrderId c) (fst a)) ps') as)),
                                  setParticipants d ps'))))))"

subsection \<open>The uniqueness constraint\<close>

text \<open>The constraint \<^verbatim>\<open>PlatformProductOrderInfluencerIdentifier\<close> that the upsert
  names: no two participant rows have the same order and influencer.\<close>

definition participantKey :: "PlatformProductOrderInfluencer \<Rightarrow> nat \<times> nat" where
  "participantKey p = (productOrderId p, influencerId p)"

definition uniqueKeys :: "PlatformProductOrderInfluencer list \<Rightarrow> bool" where
  "uniqueKeys ps = distinct (map participantKey ps)"

subsection \<open>The order service\<close>

text \<open>
  \<^verbatim>\<open>PlatformProductOrderService.addInfluencers\<close>, for one pair of an order and an
  influencer: inside a transaction it reads the user of the influencer and the first
  campaign amount of the influencer, and creates (not upserts) the participant row,
  with the status number of the user in the status column; \<open>statusOfNumber\<close> reads such
  a number as a participant status. Whatever fails inside, a missing user or amount as
  well as an insert that breaks the uniqueness constraint or names no order, is caught
  and thrown again as Conflict.
\<close>

definition orderServiceAddInfluencers ::
  "(nat \<Rightarrow> ProductOrderInfluencerStatus) \<Rightarrow> db \<Rightarrow> nat \<times> nat
   \<Rightarrow> (error + PlatformProductOrderInfluencer) \<times> db" where
  "orderServiceAddInfluencers statusOfNumber d dto =
     (case dto of (oid, i) \<Rightarrow>
        (case find (\<lambda>u. list_ex (\<lambda>infl. infId infl = i \<and> infUserId infl = userId u) (influencers d))
                (users d) of
           None \<Rightarrow> (Inl Conflict, d)
         | Some user \<Rightarrow>
             (case concat (map influencerCampaignAmounts
                            (filter (\<lambda>infl. infId infl = i) (influencers d))) of
                [] \<Rightarrow> (Inl Conflict, d)
              | campaignAmount # rest \<Rightarrow>
                  if list_ex (sameKey oid i) (platformProductOrderInfluencers d)
                  then (Inl Conflict, d)
                  else if list_all (\<lambda>ord. orderId ord \<noteq> oid) (platformProductOrders d)
                  then (Inl Conflict, d)
                  else
                    (let created = \<lparr>poiId = nextId (platformProductOrderInfluencers d),
                                    productOrderId = oid, influencerId = i,
                                    agreedAmount = snd campaignAmount,
                                    currency = userCurrency user,
                                    status = statusOfNumber (userStatus user)\<rparr>
                     in (Inr created,
                         setParticipants d (platformProductOrderInfluencers d @ [created]))))))"

section \<open>The state diagram\<close>

text \<open>
  The state diagram of the spec (its section 4), written from the spec's words as a
  relation on statuses, to be compared with what the operations write: invitation
  (also of an invited participant), acceptance into Matching (campaign) or ToBeAnswered
  (survey), decline, confirmed match (campaign), submission and resubmission, approval,
  disapproval, finishing, payment, the two removals by the client, and the withdrawal,
  which the spec allows from every status that is not below Invited and not Invited.
  \<open>num\<close> is the numbering of the status enum.
\<close>

definition diagramEdge ::
  "(ProductOrderInfluencerStatus \<Rightarrow> int) \<Rightarrow> service
   \<Rightarrow> ProductOrderInfluencerStatus \<Rightarrow> ProductOrderInfluencerStatus \<Rightarrow> bool" where
  "diagramEdge num svc s s' =
     ((s' = Invited \<and> s \<in> {Added, Invited})
    \<or> (s' = Matching \<and> svc = CampaignService \<and> s = Invited)
    \<or> (s' = ToBeAnswered \<and> svc = SurveysService \<and> s = Invited)
    \<or> (s' = Declined \<and> s = Invited)
    \<or> (s' = ToBeSubmitted \<and> svc = CampaignService \<and> s = Matching)
    \<or> (s' = ToBeApproved \<and> svc = CampaignService \<and> s \<in> {ToBeSubmitted, NotApproved})
    \<or> (s' = ToBeApproved \<and> svc = SurveysService \<and> s \<in> {ToBeAnswered, NotApproved})
    \<or> (s' = Approved \<and> s \<in> {ToBeApproved, NotApproved})
    \<or> (s' = NotApproved \<and> s = ToBeApproved)
    \<or> (s' = ToBePaid \<and> s = Approved)
    \<or> (s' = Paid \<and> s = ToBePaid)
    \<or> (s' = NotSelected \<and> svc = CampaignService \<and> s \<in> {Added, Invited, Matching})
    \<or> (s' = NotSelected \<and> svc = SurveysService \<and> s \<in> {Added, Invited})
    \<or> (s' = Removed \<and> svc = CampaignService
        \<and> s \<in> {ToBeSubmitted, ToBeApproved, Approved, ToBePaid, Paid})
    \<or> (s' = Removed \<and> svc = SurveysService
        \<and> s \<in> {ToBeAnswered, ToBeApproved, Approved, ToBePaid, Paid})
    \<or> (s' = Withdrawn \<and> num Invited \<le> num s \<and> s \<noteq> Invited))"

text \<open>A row after an operation, against the row before: the same row, or the same row
  but for its status, which has moved along an edge of the diagram.\<close>

definition rowStep ::
  "(ProductOrderInfluencerStatus \<Rightarrow> int) \<Rightarrow> service
   \<Rightarrow> PlatformProductOrderInfluencer \<Rightarrow> PlatformProductOrderInfluencer \<Rightarrow> bool" where
  "rowStep num svc q q' =
     (q' = q \<or> (q' = q\<lparr>status := status q'\<rparr> \<and> diagramEdge num svc (status q) (status q')))"

text \<open>The table after an operation, against the table before, row by row: for all
  rows, or for the rows of a selection only.\<close>

definition followsDiagram ::
  "(ProductOrderInfluencerStatus \<Rightarrow> int) \<Rightarrow> service
   \<Rightarrow> PlatformProductOrderInfluencer list \<Rightarrow> PlatformProductOrderInfluencer list \<Rightarrow> bool" where
  "followsDiagram num svc ps ps' = list_all2 (rowStep num svc) ps ps'"

definition followsDiagramOn ::
  "(ProductOrderInfluencerStatus \<Rightarrow> int) \<Rightarrow> service \<Rightarrow> PlatformProductOrderInfluencer list
   \<Rightarrow> PlatformProductOrderInfluencer list \<Rightarrow> PlatformProductOrderInfluencer list \<Rightarrow> bool" where
  "followsDiagramOn num svc sel ps ps' =
     list_all2 (\<lambda>q q'. if q \<in> set sel then rowStep num svc q q' else True) ps ps'"

section \<open>Example data\<close>

text \<open>A small database for the examples below: users 1, 2 and 3 are the influencers
  10, 20 and 30 (the last one without a desired amount for type 1); campaign 1 runs on order 100, campaign 2 on order 200, survey 1 on order 300
  (all three OnGoing), and campaign 3 on the Finished order 400. The participant rows
  are the parameter.\<close>

definition row ::
  "nat \<Rightarrow> nat \<Rightarrow> nat \<Rightarrow> ProductOrderInfluencerStatus \<Rightarrow> PlatformProductOrderInfluencer" where
  "row n oid i s =
     \<lparr>poiId = n, productOrderId = oid, influencerId = i, agreedAmount = 500, currency = 978,
      status = s\<rparr>"

definition exampleDb :: "PlatformProductOrderInfluencer list \<Rightarrow> db" where
  "exampleDb ps =
     \<lparr>users = [\<lparr>userId = 1, userCurrency = 978, userStatus = 4\<rparr>,
               \<lparr>userId = 2, userCurrency = 840, userStatus = 4\<rparr>,
               \<lparr>userId = 3, userCurrency = 756, userStatus = 4\<rparr>],
      influencers =
        [\<lparr>infId = 10, infUserId = 1, influencerCampaignAmounts = [(1, 700)],
          influencerSurveyAmounts = [(1, 70)]\<rparr>,
         \<lparr>infId = 20, infUserId = 2, influencerCampaignAmounts = [(1, 900)],
          influencerSurveyAmounts = [(1, 90)]\<rparr>,
         \<lparr>infId = 30, infUserId = 3, influencerCampaignAmounts = [(2, 300)],
          influencerSurveyAmounts = []\<rparr>],
      platformProductOrders =
        [\<lparr>orderId = 100, orderStatus = OnGoing\<rparr>, \<lparr>orderId = 200, orderStatus = OnGoing\<rparr>,
         \<lparr>orderId = 300, orderStatus = OnGoing\<rparr>, \<lparr>orderId = 400, orderStatus = Finished\<rparr>],
      campaigns =
        [\<lparr>productId = 1, platformProductOrderId = 100, declaredType = Some 1\<rparr>,
         \<lparr>productId = 2, platformProductOrderId = 200, declaredType = Some 1\<rparr>,
         \<lparr>productId = 3, platformProductOrderId = 400, declaredType = Some 1\<rparr>],
      surveys = [\<lparr>productId = 1, platformProductOrderId = 300, declaredType = Some 1\<rparr>],
      platformProductOrderInfluencers = ps,
      campaignInfluencerPerformances = [],
      surveyResponses = []\<rparr>"

definition caller :: "nat \<Rightarrow> nat \<Rightarrow> UserWithInfluencer" where
  "caller u i = \<lparr>callerId = u, callerInfluencer = Some i\<rparr>"

definition examplePseudostring :: "nat \<Rightarrow> string" where
  "examplePseudostring n = ''code''"

text \<open>A reading of status numbers for the examples, the inverse of the numbering
  below on the numbers it uses.\<close>

definition exampleStatusOfNumber :: "nat \<Rightarrow> ProductOrderInfluencerStatus" where
  "exampleStatusOfNumber n =
     (if n = 0 then Added else if n = 1 then Invited else if n = 2 then Matching
      else if n = 3 then ToBeSubmitted else if n = 4 then ToBeAnswered
      else if n = 5 then ToBeApproved else if n = 6 then NotApproved
      else if n = 7 then Approved else if n = 8 then ToBePaid else if n = 9 then Paid
      else if n = 10 then Declined else if n = 11 then NotSelected
      else if n = 12 then Removed else Withdrawn)"

text \<open>A numbering of the participant statuses for the examples: the order of the
  spec's diagram, the side states last.\<close>

fun exampleNumbering :: "ProductOrderInfluencerStatus \<Rightarrow> int" where
  "exampleNumbering Added = 0"
| "exampleNumbering Invited = 1"
| "exampleNumbering Matching = 2"
| "exampleNumbering ToBeSubmitted = 3"
| "exampleNumbering ToBeAnswered = 4"
| "exampleNumbering ToBeApproved = 5"
| "exampleNumbering NotApproved = 6"
| "exampleNumbering Approved = 7"
| "exampleNumbering ToBePaid = 8"
| "exampleNumbering Paid = 9"
| "exampleNumbering Declined = 10"
| "exampleNumbering NotSelected = 11"
| "exampleNumbering Removed = 12"
| "exampleNumbering Withdrawn = 13"

section \<open>Basic facts\<close>

lemmas ex_simps = exampleDb_def row_def caller_def findUniqueOrThrow_def products_def
  ofInfluencer_def ofInfluencerIdIn_def ofInfluencerUserIdIn_def influencerUserId_def
  updateStatus_def updateEach_def updateMany_def countMany_def setParticipants_def

lemma ofInfluencer_head:
  "ofInfluencer d oid i = p # rest \<Longrightarrow> productOrderId p = oid \<and> influencerId p = i"
proof -
  assume h: "ofInfluencer d oid i = p # rest"
  have "p \<in> set (ofInfluencer d oid i)" by (simp add: h)
  then show ?thesis by (simp add: ofInfluencer_def)
qed

lemma findUniqueOrThrow_Inr:
  assumes "findUniqueOrThrow svc d pid = Inr (c, ord)"
  shows "orderId ord = platformProductOrderId c" and "productId c = pid"
  using assms
  by (auto simp add: findUniqueOrThrow_def find_Some_iff split: option.splits)

lemma setParticipants_sel [simp]:
  "users (setParticipants d ps) = users d"
  "influencers (setParticipants d ps) = influencers d"
  "platformProductOrders (setParticipants d ps) = platformProductOrders d"
  "campaigns (setParticipants d ps) = campaigns d"
  "surveys (setParticipants d ps) = surveys d"
  "campaignInfluencerPerformances (setParticipants d ps) = campaignInfluencerPerformances d"
  "surveyResponses (setParticipants d ps) = surveyResponses d"
  by (simp_all add: setParticipants_def)

lemma products_setParticipants [simp]:
  "products svc (setParticipants d ps) = products svc d"
  by (cases svc) (simp_all add: products_def)

lemma findUniqueOrThrow_setParticipants [simp]:
  "findUniqueOrThrow svc (setParticipants d ps) pid = findUniqueOrThrow svc d pid"
  by (simp add: findUniqueOrThrow_def cong: option.case_cong)

lemma participants_setParticipants [simp]:
  "platformProductOrderInfluencers (setParticipants d ps) = ps"
  by (simp add: setParticipants_def)

lemma ofInfluencer_updateStatus:
  "ofInfluencer (setParticipants d (updateStatus k s (platformProductOrderInfluencers d))) oid i
     = map (\<lambda>p. if poiId p = k then p\<lparr>status := s\<rparr> else p) (ofInfluencer d oid i)"
  by (simp add: ofInfluencer_def updateStatus_def filter_map comp_def if_distrib [of productOrderId]
      if_distrib [of influencerId] cong: if_cong)

lemma ofInfluencerIdIn_single: "ofInfluencerIdIn d oid [i] = ofInfluencer d oid i"
  by (simp add: ofInfluencerIdIn_def ofInfluencer_def)

lemma all_named_present:
  assumes "\<forall>i\<in>set ids. \<exists>p\<in>set (platformProductOrderInfluencers d).
             productOrderId p = oid \<and> influencerId p = i"
  shows "filter (\<lambda>i. find (\<lambda>p. influencerId p = i) (ofInfluencerIdIn d oid ids) = None) ids = []"
  using assms
  by (auto simp add: filter_empty_conv find_None_iff ofInfluencerIdIn_def)

lemma updateEach_alt:
  "updateEach sel s ps = map (\<lambda>p. if poiId p \<in> poiId ` set sel then p\<lparr>status := s\<rparr> else p) ps"
  unfolding updateEach_def
proof (induction sel arbitrary: ps)
  case Nil
  then show ?case by simp
next
  case (Cons q sel)
  have "fold (\<lambda>q. updateStatus (poiId q) s) (q # sel) ps
          = map (\<lambda>p. if poiId p \<in> poiId ` set sel then p\<lparr>status := s\<rparr> else p)
              (updateStatus (poiId q) s ps)"
    by (simp add: Cons.IH)
  also have "\<dots> = map (\<lambda>p. if poiId p \<in> poiId ` set (q # sel) then p\<lparr>status := s\<rparr> else p) ps"
    by (simp add: updateStatus_def)
  finally show ?case .
qed


section \<open>Self-removal\<close>

text \<open>
  Claim C8. For a caller who is an influencer, on an existing campaign or survey:
  \<^verbatim>\<open>removeInfluencerSelf\<close> fails when the caller has no participant row in the order
  (with the TypeError of the unchecked read) and, with ApplicationException, when the
  status of the row is numerically below Invited; it fails with Forbidden when the
  status is Invited; in every other case it succeeds and writes Withdrawn to the row
  of that id, leaving every other row as it was. In each failing case the database is
  unchanged. This holds for every numbering \<open>num\<close> of the statuses.
\<close>

theorem removeInfluencerSelf_cases:
  assumes "callerInfluencer user = Some i"
    and "findUniqueOrThrow svc d pid = Inr (c, ord)"
  shows "(ofInfluencer d (orderId ord) i = [] \<longrightarrow>
            removeInfluencerSelf num svc d pid user = (Inl TypeError, d))
       \<and> (\<forall>p rest. ofInfluencer d (orderId ord) i = p # rest \<longrightarrow>
            (num (status p) < num Invited \<longrightarrow>
               removeInfluencerSelf num svc d pid user = (Inl ApplicationException, d))
          \<and> (status p = Invited \<longrightarrow>
               removeInfluencerSelf num svc d pid user = (Inl Forbidden, d))
          \<and> (\<not> num (status p) < num Invited \<and> status p \<noteq> Invited \<longrightarrow>
               removeInfluencerSelf num svc d pid user =
                 (Inr (p\<lparr>status := Withdrawn\<rparr>),
                  d\<lparr>platformProductOrderInfluencers :=
                      map (\<lambda>q. if poiId q = poiId p then q\<lparr>status := Withdrawn\<rparr> else q)
                        (platformProductOrderInfluencers d)\<rparr>)))"
  using assms
  by (auto simp add: removeInfluencerSelf_def updateStatus_def setParticipants_def
      dest: ofInfluencer_head)

theorem removeInfluencerSelf_cases_witness:
  "removeInfluencerSelf exampleNumbering CampaignService (exampleDb [row 1 100 10 Added]) 1 (caller 1 10)
     = (Inl ApplicationException, exampleDb [row 1 100 10 Added])
   \<and> removeInfluencerSelf exampleNumbering CampaignService (exampleDb [row 1 100 10 Invited]) 1 (caller 1 10)
     = (Inl Forbidden, exampleDb [row 1 100 10 Invited])
   \<and> removeInfluencerSelf exampleNumbering CampaignService (exampleDb [row 1 100 10 Matching]) 1 (caller 1 10)
     = (Inr (row 1 100 10 Withdrawn), exampleDb [row 1 100 10 Withdrawn])
   \<and> removeInfluencerSelf exampleNumbering CampaignService (exampleDb []) 1 (caller 1 10)
     = (Inl TypeError, exampleDb [])"
proof -
  let ?c = "\<lparr>productId = 1, platformProductOrderId = 100, declaredType = Some 1\<rparr>"
  let ?o = "\<lparr>orderId = 100, orderStatus = OnGoing\<rparr>"
  have u: "callerInfluencer (caller 1 10) = Some 10" by (simp add: caller_def)
  have f: "findUniqueOrThrow CampaignService (exampleDb ps) 1 = Inr (?c, ?o)" for ps
    by (simp add: ex_simps)
  show ?thesis
    using removeInfluencerSelf_cases [OF u f, of "[row 1 100 10 Added]" exampleNumbering]
      removeInfluencerSelf_cases [OF u f, of "[row 1 100 10 Invited]" exampleNumbering]
      removeInfluencerSelf_cases [OF u f, of "[row 1 100 10 Matching]" exampleNumbering]
      removeInfluencerSelf_cases [OF u f, of "[]" exampleNumbering]
    by (simp add: ex_simps)
qed

section \<open>A caller who is not a participant\<close>

text \<open>
  Claim C10. When the calling influencer has no participant row in the order,
  \<^verbatim>\<open>removeInfluencerSelf\<close>, \<^verbatim>\<open>submitInfluencerData\<close> (campaign) and
  \<^verbatim>\<open>submitSurveyResult\<close> (survey) end in the TypeError of reading a field of the
  missing first element, whatever the fault and the data, and leave the database
  unchanged. Moreover the first disjunct of the guard of \<^verbatim>\<open>removeInfluencerSelf\<close>
  never holds: a row that was found belongs to the caller, so the only way to its
  ApplicationException is a status below Invited.
\<close>

theorem not_a_participant_TypeError:
  assumes "callerInfluencer user = Some i"
    and "findUniqueOrThrow svc d pid = Inr (c, ord)"
  shows "(ofInfluencer d (orderId ord) i = [] \<longrightarrow>
            removeInfluencerSelf num svc d pid user = (Inl TypeError, d)
          \<and> (svc = CampaignService \<longrightarrow>
               submitInfluencerData flt idToPseudostring d pid user link = (Inl TypeError, d))
          \<and> (svc = SurveysService \<longrightarrow>
               submitSurveyResult flt d pid user dat = (Inl TypeError, d)))
       \<and> (\<forall>p rest. ofInfluencer d (orderId ord) i = p # rest \<longrightarrow> influencerId p = i)
       \<and> (fst (removeInfluencerSelf num svc d pid user) = Inl ApplicationException \<longrightarrow>
            (\<exists>p rest. ofInfluencer d (orderId ord) i = p # rest \<and> num (status p) < num Invited))"
proof (intro conjI impI allI)
  assume e: "ofInfluencer d (orderId ord) i = []"
  show "removeInfluencerSelf num svc d pid user = (Inl TypeError, d)"
    using assms e by (simp add: removeInfluencerSelf_def)
  show "submitInfluencerData flt idToPseudostring d pid user link = (Inl TypeError, d)"
    if "svc = CampaignService"
    using assms e that by (simp add: submitInfluencerData_def)
  show "submitSurveyResult flt d pid user dat = (Inl TypeError, d)"
    if "svc = SurveysService"
    using assms e that by (simp add: submitSurveyResult_def)
next
  fix p rest
  assume "ofInfluencer d (orderId ord) i = p # rest"
  then show "influencerId p = i" by (simp add: ofInfluencer_head)
next
  assume a: "fst (removeInfluencerSelf num svc d pid user) = Inl ApplicationException"
  show "\<exists>p rest. ofInfluencer d (orderId ord) i = p # rest \<and> num (status p) < num Invited"
  proof (cases "ofInfluencer d (orderId ord) i")
    case Nil
    then show ?thesis using assms a by (simp add: removeInfluencerSelf_def)
  next
    case (Cons p rest)
    then have "influencerId p = i" by (simp add: ofInfluencer_head)
    then show ?thesis using assms a Cons
      by (simp add: removeInfluencerSelf_def split: if_splits)
  qed
qed

theorem not_a_participant_TypeError_witness:
  "removeInfluencerSelf exampleNumbering CampaignService (exampleDb [row 1 100 10 Matching]) 1 (caller 2 20)
     = (Inl TypeError, exampleDb [row 1 100 10 Matching])
   \<and> submitInfluencerData NoFault (\<lambda>n. ''code'') (exampleDb [row 1 100 10 Matching]) 1 (caller 2 20) ''link''
     = (Inl TypeError, exampleDb [row 1 100 10 Matching])
   \<and> submitSurveyResult NoFault (exampleDb [row 1 100 10 Matching]) 1 (caller 2 20) (1, 1, ''yes'')
     = (Inl TypeError, exampleDb [row 1 100 10 Matching])"
proof -
  let ?d = "exampleDb [row 1 100 10 Matching]"
  have u: "callerInfluencer (caller 2 20) = Some 20" by (simp add: caller_def)
  have f: "findUniqueOrThrow CampaignService ?d 1 =
             Inr (\<lparr>productId = 1, platformProductOrderId = 100, declaredType = Some 1\<rparr>,
                  \<lparr>orderId = 100, orderStatus = OnGoing\<rparr>)"
    by (simp add: ex_simps)
  have g: "findUniqueOrThrow SurveysService ?d 1 =
             Inr (\<lparr>productId = 1, platformProductOrderId = 300, declaredType = Some 1\<rparr>,
                  \<lparr>orderId = 300, orderStatus = OnGoing\<rparr>)"
    by (simp add: ex_simps)
  have e1: "ofInfluencer ?d 100 20 = []" by (simp add: ex_simps)
  have e2: "ofInfluencer ?d 300 20 = []" by (simp add: ex_simps)
  show ?thesis
    using not_a_participant_TypeError [OF u f, of exampleNumbering NoFault "\<lambda>n. ''code''" "''link''"]
      not_a_participant_TypeError [OF u g, of exampleNumbering NoFault _ _ "(1, 1, ''yes'')"]
      e1 e2
    by simp
qed

section \<open>Invitation, acceptance, decline\<close>

text \<open>A successful invitation: the rows it returns and the table it leaves, for any
  list of ids.\<close>

lemma inviteInfluencers_success:
  assumes f: "findUniqueOrThrow svc d pid = Inr (c, ord)"
    and named: "\<forall>k\<in>set ids. \<exists>q\<in>set (platformProductOrderInfluencers d).
                  productOrderId q = orderId ord \<and> influencerId q = k"
    and valid: "\<forall>q\<in>set (ofInfluencerIdIn d (orderId ord) ids).
                  status q = Added \<or> status q = Invited"
  shows "inviteInfluencers svc d pid ids =
           (Inr (map (\<lambda>q. q\<lparr>status := Invited\<rparr>) (ofInfluencerIdIn d (orderId ord) ids)),
            setParticipants d
              (map (\<lambda>q. if poiId q \<in> poiId ` set (ofInfluencerIdIn d (orderId ord) ids)
                        then q\<lparr>status := Invited\<rparr> else q)
                 (platformProductOrderInfluencers d)))"
proof -
  have v: "filter (\<lambda>p. status p \<notin> set [Added, Invited]) (ofInfluencerIdIn d (orderId ord) ids) = []"
    using valid by (auto simp add: filter_empty_conv)
  show ?thesis
    unfolding updateEach_alt [symmetric]
    by (simp add: inviteInfluencers_def f all_named_present [OF named] v Let_def del: set_simps)
qed

lemma ofInfluencerIdIn_map_status:
  "ofInfluencerIdIn (setParticipants d
       (map (\<lambda>q. if P q then q\<lparr>status := s\<rparr> else q) (platformProductOrderInfluencers d))) oid ids
     = map (\<lambda>q. if P q then q\<lparr>status := s\<rparr> else q) (ofInfluencerIdIn d oid ids)"
  by (simp add: ofInfluencerIdIn_def filter_map comp_def if_distrib [of productOrderId]
      if_distrib [of influencerId] cong: if_cong)

lemma ofInfluencer_map_status:
  "ofInfluencer (setParticipants d
       (map (\<lambda>q. if P q then q\<lparr>status := s\<rparr> else q) (platformProductOrderInfluencers d))) oid i
     = map (\<lambda>q. if P q then q\<lparr>status := s\<rparr> else q) (ofInfluencer d oid i)"
  by (simp add: ofInfluencer_def filter_map comp_def if_distrib [of productOrderId]
      if_distrib [of influencerId] cong: if_cong)

lemma map_selected:
  "map (\<lambda>q. if poiId q \<in> poiId ` set sel then q\<lparr>status := s\<rparr> else q) sel
     = map (\<lambda>q. q\<lparr>status := s\<rparr>) sel"
  by (rule map_cong) simp_all

lemma poiId_map_status: "poiId ` set (map (\<lambda>q. q\<lparr>status := s\<rparr>) sel) = poiId ` set sel"
  by (simp add: image_image)

lemma answerInvitation_invited:
  assumes u: "callerInfluencer user = Some i"
    and f: "findUniqueOrThrow svc d pid = Inr (c, ord)"
    and one: "ofInfluencer d (orderId ord) i = [p]"
    and st: "status p = Invited"
  shows "answerInvitation next svc d pid user =
           (Inr (p\<lparr>status := next\<rparr>),
            setParticipants d (updateStatus (poiId p) next (platformProductOrderInfluencers d)))"
  by (simp add: answerInvitation_def u f one st)

lemma answerInvitation_not_invited:
  assumes u: "callerInfluencer user = Some i"
    and f: "findUniqueOrThrow svc d pid = Inr (c, ord)"
    and one: "ofInfluencer d (orderId ord) i = p # rest"
    and st: "status p \<noteq> Invited"
  shows "answerInvitation next svc d pid user = (Inl (BadRequest NotInvited), d)"
  by (simp add: answerInvitation_def u f one st)

text \<open>
  Claim C9. On an existing campaign or survey, let \<^verbatim>\<open>inviteInfluencers\<close> be called
  with any list of influencer ids, each of them a participant of the order, the named
  participants at Added (or already at Invited). The call succeeds, returns every named
  row of the order with the status Invited, and writes Invited to the rows with the ids
  of these rows, leaving every other row and every other table as it was; after it all
  named rows of the order are at Invited. A second call with the same ids succeeds
  again, returns the same rows and leaves the database as the first call left it. For
  a caller who is one of the named influencers, with the participant row \<open>p\<close>:
  from there \<^verbatim>\<open>acceptInvitation\<close> writes Matching in a campaign and ToBeAnswered in a
  survey, and \<^verbatim>\<open>declineInvitation\<close> writes Declined; after the decline,
  \<^verbatim>\<open>acceptInvitation\<close> fails with BadRequest and changes nothing.
\<close>

theorem invitation_scenario:
  assumes f: "findUniqueOrThrow svc d pid = Inr (c, ord)"
    and named: "\<forall>k\<in>set ids. \<exists>q\<in>set (platformProductOrderInfluencers d).
                  productOrderId q = orderId ord \<and> influencerId q = k"
    and valid: "\<forall>q\<in>set (ofInfluencerIdIn d (orderId ord) ids).
                  status q = Added \<or> status q = Invited"
    and u: "callerInfluencer user = Some i"
    and mem: "i \<in> set ids"
    and one: "ofInfluencer d (orderId ord) i = [p]"
  shows "let sel = ofInfluencerIdIn d (orderId ord) ids;
             d1 = snd (inviteInfluencers svc d pid ids);
             d2 = snd (inviteInfluencers svc d1 pid ids);
             dA = snd (acceptInvitation svc d2 pid user);
             dD = snd (declineInvitation svc d2 pid user)
         in fst (inviteInfluencers svc d pid ids) = Inr (map (\<lambda>q. q\<lparr>status := Invited\<rparr>) sel)
          \<and> d1 = d\<lparr>platformProductOrderInfluencers :=
                     map (\<lambda>q. if poiId q \<in> poiId ` set sel then q\<lparr>status := Invited\<rparr> else q)
                       (platformProductOrderInfluencers d)\<rparr>
          \<and> ofInfluencerIdIn d1 (orderId ord) ids = map (\<lambda>q. q\<lparr>status := Invited\<rparr>) sel
          \<and> ofInfluencer d1 (orderId ord) i = [p\<lparr>status := Invited\<rparr>]
          \<and> fst (inviteInfluencers svc d1 pid ids) = Inr (map (\<lambda>q. q\<lparr>status := Invited\<rparr>) sel)
          \<and> d2 = d1
          \<and> fst (acceptInvitation svc d2 pid user) = Inr (p\<lparr>status := acceptedStatus svc\<rparr>)
          \<and> ofInfluencer dA (orderId ord) i =
              [p\<lparr>status := (case svc of CampaignService \<Rightarrow> Matching | SurveysService \<Rightarrow> ToBeAnswered)\<rparr>]
          \<and> fst (declineInvitation svc d2 pid user) = Inr (p\<lparr>status := Declined\<rparr>)
          \<and> ofInfluencer dD (orderId ord) i = [p\<lparr>status := Declined\<rparr>]
          \<and> isBadRequest (fst (acceptInvitation svc dD pid user))
          \<and> snd (acceptInvitation svc dD pid user) = dD"
proof -
  let ?pI = "p\<lparr>status := Invited\<rparr>"
  define sel where "sel = ofInfluencerIdIn d (orderId ord) ids"
  define g where "g = (\<lambda>q :: PlatformProductOrderInfluencer. if poiId q \<in> poiId ` set sel then q\<lparr>status := Invited\<rparr> else q)"
  define d1 where "d1 = setParticipants d (map g (platformProductOrderInfluencers d))"
  define dA where "dA = setParticipants d1 (updateStatus (poiId p) (acceptedStatus svc) (platformProductOrderInfluencers d1))"
  define dD where "dD = setParticipants d1 (updateStatus (poiId p) Declined (platformProductOrderInfluencers d1))"
  have psel: "p \<in> set sel"
  proof -
    have "p \<in> set (ofInfluencer d (orderId ord) i)" by (simp add: one)
    then show ?thesis using mem by (simp add: sel_def ofInfluencer_def ofInfluencerIdIn_def)
  qed
  have i1: "inviteInfluencers svc d pid ids = (Inr (map (\<lambda>q. q\<lparr>status := Invited\<rparr>) sel), d1)"
    unfolding d1_def g_def sel_def by (rule inviteInfluencers_success [OF f named valid])
  have f1: "findUniqueOrThrow svc d1 pid = Inr (c, ord)" by (simp add: d1_def f)
  have s1: "ofInfluencerIdIn d1 (orderId ord) ids = map (\<lambda>q. q\<lparr>status := Invited\<rparr>) sel"
    unfolding d1_def g_def ofInfluencerIdIn_map_status sel_def [symmetric] by (rule map_selected)
  have o1: "ofInfluencer d1 (orderId ord) i = [?pI]"
    unfolding d1_def g_def ofInfluencer_map_status one using psel by simp
  have named1: "\<forall>k\<in>set ids. \<exists>q\<in>set (platformProductOrderInfluencers d1).
                  productOrderId q = orderId ord \<and> influencerId q = k"
  proof
    fix k assume "k \<in> set ids"
    then obtain q where q: "q \<in> set (platformProductOrderInfluencers d)"
      "productOrderId q = orderId ord" "influencerId q = k" using named by blast
    have "g q \<in> set (platformProductOrderInfluencers d1)" using q(1) by (simp add: d1_def)
    moreover have "productOrderId (g q) = orderId ord \<and> influencerId (g q) = k"
      using q by (simp add: g_def)
    ultimately show "\<exists>q\<in>set (platformProductOrderInfluencers d1).
                  productOrderId q = orderId ord \<and> influencerId q = k" by blast
  qed
  have valid1: "\<forall>q\<in>set (ofInfluencerIdIn d1 (orderId ord) ids). status q = Added \<or> status q = Invited"
    unfolding s1 by simp
  have again: "setParticipants d1
              (map (\<lambda>q. if poiId q \<in> poiId ` set (map (\<lambda>q. q\<lparr>status := Invited\<rparr>) sel)
                        then q\<lparr>status := Invited\<rparr> else q)
                 (platformProductOrderInfluencers d1)) = d1"
    unfolding poiId_map_status
    by (simp add: d1_def g_def setParticipants_def)
  have i2: "inviteInfluencers svc d1 pid ids = (Inr (map (\<lambda>q. q\<lparr>status := Invited\<rparr>) sel), d1)"
    using inviteInfluencers_success [OF f1 named1 valid1] unfolding s1 again by (simp add: comp_def)
  have a: "acceptInvitation svc d1 pid user = (Inr (p\<lparr>status := acceptedStatus svc\<rparr>), dA)"
    unfolding dA_def acceptInvitation_def
    using answerInvitation_invited [OF u f1 o1, of "acceptedStatus svc"] by simp
  have oA: "ofInfluencer dA (orderId ord) i = [p\<lparr>status := acceptedStatus svc\<rparr>]"
    by (simp add: dA_def ofInfluencer_updateStatus o1)
  have dc: "declineInvitation svc d1 pid user = (Inr (p\<lparr>status := Declined\<rparr>), dD)"
    unfolding dD_def declineInvitation_def
    using answerInvitation_invited [OF u f1 o1, of Declined] by simp
  have fD: "findUniqueOrThrow svc dD pid = Inr (c, ord)" by (simp add: dD_def f1)
  have oD: "ofInfluencer dD (orderId ord) i = [p\<lparr>status := Declined\<rparr>]"
    by (simp add: dD_def ofInfluencer_updateStatus o1)
  have r: "acceptInvitation svc dD pid user = (Inl (BadRequest NotInvited), dD)"
    unfolding acceptInvitation_def
    using answerInvitation_not_invited [OF u fD oD] by simp
  have acc: "acceptedStatus svc = (case svc of CampaignService \<Rightarrow> Matching | SurveysService \<Rightarrow> ToBeAnswered)"
    by (cases svc) simp_all
  have e1: "d1 = d\<lparr>platformProductOrderInfluencers :=
                     map (\<lambda>q. if poiId q \<in> poiId ` set sel then q\<lparr>status := Invited\<rparr> else q)
                       (platformProductOrderInfluencers d)\<rparr>"
    by (simp add: d1_def g_def setParticipants_def)
  show ?thesis
    unfolding Let_def sel_def [symmetric] i1 snd_conv fst_conv i2 a dc r
    using e1 s1 o1 oA oD unfolding acc by simp
qed


theorem invitation_scenario_witness:
  "(let d = exampleDb [row 1 100 10 Added, row 2 100 20 Invited, row 3 100 30 Matching,
                       row 4 300 10 Added, row 5 300 20 Added];
        d1 = snd (inviteInfluencers CampaignService d 1 [10, 20]);
        d2 = snd (inviteInfluencers CampaignService d1 1 [10, 20]);
        s2 = snd (inviteInfluencers SurveysService (snd (inviteInfluencers SurveysService d 1 [10, 20])) 1 [10, 20])
    in fst (inviteInfluencers CampaignService d 1 [10, 20])
         = Inr [row 1 100 10 Invited, row 2 100 20 Invited]
     \<and> d1 = exampleDb [row 1 100 10 Invited, row 2 100 20 Invited, row 3 100 30 Matching,
                       row 4 300 10 Added, row 5 300 20 Added]
     \<and> d2 = d1
     \<and> snd (acceptInvitation CampaignService d2 1 (caller 1 10))
         = exampleDb [row 1 100 10 Matching, row 2 100 20 Invited, row 3 100 30 Matching,
                      row 4 300 10 Added, row 5 300 20 Added]
     \<and> snd (acceptInvitation SurveysService s2 1 (caller 1 10))
         = exampleDb [row 1 100 10 Added, row 2 100 20 Invited, row 3 100 30 Matching,
                      row 4 300 10 ToBeAnswered, row 5 300 20 Invited]
     \<and> snd (declineInvitation CampaignService d2 1 (caller 1 10))
         = exampleDb [row 1 100 10 Declined, row 2 100 20 Invited, row 3 100 30 Matching,
                      row 4 300 10 Added, row 5 300 20 Added]
     \<and> isBadRequest (fst (acceptInvitation CampaignService
                             (snd (declineInvitation CampaignService d2 1 (caller 1 10))) 1 (caller 1 10))))"
proof -
  let ?d = "exampleDb [row 1 100 10 Added, row 2 100 20 Invited, row 3 100 30 Matching,
                       row 4 300 10 Added, row 5 300 20 Added]"
  let ?o = "\<lparr>orderId = 100, orderStatus = OnGoing\<rparr>"
  let ?o' = "\<lparr>orderId = 300, orderStatus = OnGoing\<rparr>"
  have u: "callerInfluencer (caller 1 10) = Some 10" by (simp add: caller_def)
  have f: "findUniqueOrThrow CampaignService ?d 1 =
             Inr (\<lparr>productId = 1, platformProductOrderId = 100, declaredType = Some 1\<rparr>, ?o)"
    by (simp add: ex_simps)
  have g: "findUniqueOrThrow SurveysService ?d 1 =
             Inr (\<lparr>productId = 1, platformProductOrderId = 300, declaredType = Some 1\<rparr>, ?o')"
    by (simp add: ex_simps)
  have n: "\<forall>k\<in>set [10, 20]. \<exists>q\<in>set (platformProductOrderInfluencers ?d).
             productOrderId q = orderId ?o \<and> influencerId q = k"
    by (simp add: ex_simps)
  have n': "\<forall>k\<in>set [10, 20]. \<exists>q\<in>set (platformProductOrderInfluencers ?d).
             productOrderId q = orderId ?o' \<and> influencerId q = k"
    by (simp add: ex_simps)
  have v: "\<forall>q\<in>set (ofInfluencerIdIn ?d (orderId ?o) [10, 20]). status q = Added \<or> status q = Invited"
    by (simp add: ex_simps)
  have v': "\<forall>q\<in>set (ofInfluencerIdIn ?d (orderId ?o') [10, 20]). status q = Added \<or> status q = Invited"
    by (simp add: ex_simps)
  have m: "(10::nat) \<in> set [10, 20]" by simp
  have o: "ofInfluencer ?d (orderId ?o) 10 = [row 1 100 10 Added]"
    by (simp add: ex_simps)
  have o': "ofInfluencer ?d (orderId ?o') 10 = [row 4 300 10 Added]"
    by (simp add: ex_simps)
  note c = invitation_scenario [OF f n v u m o]
  note s = invitation_scenario [OF g n' v' u m o']
  show ?thesis
    using c s
    by (simp add: Let_def inviteInfluencers_def acceptInvitation_def declineInvitation_def
        answerInvitation_def ex_simps)
qed


section \<open>Removal by the client\<close>

lemma two_updateMany:
  assumes "\<And>p. w1 p \<Longrightarrow> \<not> w2 p" and "\<And>p. \<not> w2 (p\<lparr>status := s1\<rparr>)"
  shows "updateMany w2 s2 (updateMany w1 s1 ps)
           = map (\<lambda>p. if w1 p then p\<lparr>status := s1\<rparr> else if w2 p then p\<lparr>status := s2\<rparr> else p) ps"
    and "countMany w2 (updateMany w1 s1 ps) = countMany w2 ps"
proof -
  show "updateMany w2 s2 (updateMany w1 s1 ps)
           = map (\<lambda>p. if w1 p then p\<lparr>status := s1\<rparr> else if w2 p then p\<lparr>status := s2\<rparr> else p) ps"
    using assms by (simp add: updateMany_def)
  show "countMany w2 (updateMany w1 s1 ps) = countMany w2 ps"
    using assms by (induction ps) (auto simp add: countMany_def updateMany_def)
qed

lemma inBucket_facts:
  "inBucket oid ids (notSelectedFrom svc) p \<Longrightarrow> \<not> inBucket oid ids (removedFrom svc) p"
  "\<not> inBucket oid ids (removedFrom svc) (p\<lparr>status := NotSelected\<rparr>)"
  "inBucket oid ids (removedFrom svc) p \<Longrightarrow> \<not> inBucket oid ids (notSelectedFrom svc) p"
  "\<not> inBucket oid ids (notSelectedFrom svc) (p\<lparr>status := Removed\<rparr>)"
  by (cases svc; auto simp add: inBucket_def)+

lemma inBucket_eq:
  "inBucket oid ids sts =
     (\<lambda>p. (productOrderId p = oid \<and> influencerId p \<in> set ids) \<and> status p \<in> set sts)"
  by (rule ext) (simp add: inBucket_def)

text \<open>
  Claim C5. On an existing campaign or survey, when every named id has a participant
  row in the order, one call of \<^verbatim>\<open>removeInfluencers\<close> succeeds; it writes NotSelected
  to each named row of the order whose status is Added, Invited or (campaign only)
  Matching, writes Removed to each named row whose status is ToBeSubmitted (campaign)
  or ToBeAnswered (survey), ToBeApproved, Approved, ToBePaid or Paid, and leaves every
  other row, and every other table, as it was. The count it returns is the number of
  rows of the first kind plus the number of rows of the second kind, both counted on
  the rows before the call.
\<close>

theorem removeInfluencers_buckets:
  assumes f: "findUniqueOrThrow svc d pid = Inr (c, ord)"
    and named: "\<forall>i\<in>set ids. \<exists>p\<in>set (platformProductOrderInfluencers d).
                  productOrderId p = orderId ord \<and> influencerId p = i"
  shows "removeInfluencers svc d pid ids =
     (let pre = (case svc of CampaignService \<Rightarrow> {Added, Invited, Matching}
                           | SurveysService \<Rightarrow> {Added, Invited});
          post = (case svc of
                    CampaignService \<Rightarrow> {ToBeSubmitted, ToBeApproved, Approved, ToBePaid, Paid}
                  | SurveysService \<Rightarrow> {ToBeAnswered, ToBeApproved, Approved, ToBePaid, Paid});
          named = (\<lambda>p. productOrderId p = orderId ord \<and> influencerId p \<in> set ids);
          ps = platformProductOrderInfluencers d
      in (Inr (length (filter (\<lambda>p. named p \<and> status p \<in> pre) ps)
               + length (filter (\<lambda>p. named p \<and> status p \<in> post) ps)),
          d\<lparr>platformProductOrderInfluencers :=
             map (\<lambda>p. if named p \<and> status p \<in> pre then p\<lparr>status := NotSelected\<rparr>
                       else if named p \<and> status p \<in> post then p\<lparr>status := Removed\<rparr>
                       else p) ps\<rparr>))"
proof -
  have o: "platformProductOrderId c = orderId ord" using findUniqueOrThrow_Inr [OF f] by simp
  let ?w1 = "inBucket (orderId ord) ids (notSelectedFrom svc)"
  let ?w2 = "inBucket (orderId ord) ids (removedFrom svc)"
  let ?ps = "platformProductOrderInfluencers d"
  have r: "removeInfluencers svc d pid ids =
             (Inr (countMany ?w1 ?ps + countMany ?w2 (updateMany ?w1 NotSelected ?ps)),
              setParticipants d (updateMany ?w2 Removed (updateMany ?w1 NotSelected ?ps)))"
    by (simp add: removeInfluencers_def f all_named_present [OF named] o Let_def)
  have u: "updateMany ?w2 Removed (updateMany ?w1 NotSelected ?ps)
             = map (\<lambda>p. if ?w1 p then p\<lparr>status := NotSelected\<rparr>
                         else if ?w2 p then p\<lparr>status := Removed\<rparr> else p) ?ps"
    by (rule two_updateMany) (simp_all add: inBucket_facts)
  have n: "countMany ?w2 (updateMany ?w1 NotSelected ?ps) = countMany ?w2 ?ps"
    by (rule two_updateMany) (simp_all add: inBucket_facts)
  have step: "removeInfluencers svc d pid ids =
             (Inr (countMany ?w1 ?ps + countMany ?w2 ?ps),
              setParticipants d
                (map (\<lambda>p. if ?w1 p then p\<lparr>status := NotSelected\<rparr>
                          else if ?w2 p then p\<lparr>status := Removed\<rparr> else p) ?ps))"
    by (simp only: r u n)
  show ?thesis
    unfolding step
    by (cases svc)
      (simp_all add: inBucket_eq Let_def countMany_def setParticipants_def cong: if_cong)
qed

text \<open>The other order of the two writes of \<^verbatim>\<open>removeInfluencers\<close>.\<close>

lemma removeInfluencers_order:
  fixes svc oid ids ps
  defines "w1 \<equiv> inBucket oid ids (notSelectedFrom svc)"
    and "w2 \<equiv> inBucket oid ids (removedFrom svc)"
  shows "updateMany w1 NotSelected (updateMany w2 Removed ps)
           = updateMany w2 Removed (updateMany w1 NotSelected ps)"
    and "countMany w1 (updateMany w2 Removed ps) = countMany w1 ps"
    and "countMany w2 (updateMany w1 NotSelected ps) = countMany w2 ps"
proof -
  have a: "updateMany w2 Removed (updateMany w1 NotSelected ps)
             = map (\<lambda>p. if w1 p then p\<lparr>status := NotSelected\<rparr>
                         else if w2 p then p\<lparr>status := Removed\<rparr> else p) ps"
    unfolding w1_def w2_def by (rule two_updateMany) (simp_all add: inBucket_facts)
  have b: "updateMany w1 NotSelected (updateMany w2 Removed ps)
             = map (\<lambda>p. if w2 p then p\<lparr>status := Removed\<rparr>
                         else if w1 p then p\<lparr>status := NotSelected\<rparr> else p) ps"
    unfolding w1_def w2_def by (rule two_updateMany) (simp_all add: inBucket_facts)
  have c: "\<not> (w1 p \<and> w2 p)" for p unfolding w1_def w2_def using inBucket_facts(1) by blast
  show "updateMany w1 NotSelected (updateMany w2 Removed ps)
           = updateMany w2 Removed (updateMany w1 NotSelected ps)"
    unfolding a b using c by auto
  show "countMany w1 (updateMany w2 Removed ps) = countMany w1 ps"
    unfolding w1_def w2_def by (rule two_updateMany) (simp_all add: inBucket_facts)
  show "countMany w2 (updateMany w1 NotSelected ps) = countMany w2 ps"
    unfolding w1_def w2_def by (rule two_updateMany) (simp_all add: inBucket_facts)
qed

theorem removeInfluencers_buckets_witness:
  "removeInfluencers CampaignService
     (exampleDb [row 1 100 10 Matching, row 2 100 20 ToBeApproved, row 3 200 10 Paid]) 1 [10, 20]
     = (Inr 2, exampleDb [row 1 100 10 NotSelected, row 2 100 20 Removed, row 3 200 10 Paid])
   \<and> removeInfluencers SurveysService
     (exampleDb [row 1 300 10 Matching, row 2 300 20 ToBeAnswered, row 3 200 10 Added]) 1 [10, 20]
     = (Inr 1, exampleDb [row 1 300 10 Matching, row 2 300 20 Removed, row 3 200 10 Added])"
proof -
  let ?d = "exampleDb [row 1 100 10 Matching, row 2 100 20 ToBeApproved, row 3 200 10 Paid]"
  let ?e = "exampleDb [row 1 300 10 Matching, row 2 300 20 ToBeAnswered, row 3 200 10 Added]"
  have f: "findUniqueOrThrow CampaignService ?d 1 =
             Inr (\<lparr>productId = 1, platformProductOrderId = 100, declaredType = Some 1\<rparr>,
                  \<lparr>orderId = 100, orderStatus = OnGoing\<rparr>)"
    by (simp add: ex_simps)
  have g: "findUniqueOrThrow SurveysService ?e 1 =
             Inr (\<lparr>productId = 1, platformProductOrderId = 300, declaredType = Some 1\<rparr>,
                  \<lparr>orderId = 300, orderStatus = OnGoing\<rparr>)"
    by (simp add: ex_simps)
  have n: "\<forall>i\<in>set [10, 20]. \<exists>p\<in>set (platformProductOrderInfluencers ?d).
             productOrderId p = orderId \<lparr>orderId = 100, orderStatus = OnGoing\<rparr> \<and> influencerId p = i"
    by (simp add: ex_simps)
  have m: "\<forall>i\<in>set [10, 20]. \<exists>p\<in>set (platformProductOrderInfluencers ?e).
             productOrderId p = orderId \<lparr>orderId = 300, orderStatus = OnGoing\<rparr> \<and> influencerId p = i"
    by (simp add: ex_simps)
  show ?thesis
    using removeInfluencers_buckets [OF f n] removeInfluencers_buckets [OF g m]
    by (simp add: Let_def ex_simps)
qed


section \<open>Approval\<close>

lemma all_named_users_present:
  assumes "\<forall>u\<in>set ids. \<exists>p\<in>set (ofInfluencerUserIdIn d oid ids). influencerUserId d p = Some u"
  shows "filter (\<lambda>i. find (\<lambda>p. influencerUserId d p = Some i) (ofInfluencerUserIdIn d oid ids) = None) ids = []"
  using assms by (auto simp add: filter_empty_conv find_None_iff)

text \<open>What a successful approval writes: every row of the order, whatever its status.\<close>

lemma approveSubmission_success:
  assumes f: "findUniqueOrThrow svc d pid = Inr (c, ord)"
    and named: "\<forall>u\<in>set ids. \<exists>p\<in>set (ofInfluencerUserIdIn d (orderId ord) ids).
                  influencerUserId d p = Some u"
    and valid: "\<forall>p\<in>set (ofInfluencerUserIdIn d (orderId ord) ids).
                  status p = ToBeApproved \<or> status p = NotApproved"
  shows "approveSubmission svc d pid ids =
           (Inr (length (filter (\<lambda>p. productOrderId p = orderId ord) (platformProductOrderInfluencers d))),
            d\<lparr>platformProductOrderInfluencers :=
                map (\<lambda>p. if productOrderId p = orderId ord then p\<lparr>status := Approved\<rparr> else p)
                  (platformProductOrderInfluencers d)\<rparr>)"
proof -
  have o: "platformProductOrderId c = orderId ord" using findUniqueOrThrow_Inr [OF f] by simp
  have v: "filter (\<lambda>p. status p \<notin> set [ToBeApproved, NotApproved])
             (ofInfluencerUserIdIn d (orderId ord) ids) = []"
    using valid by (auto simp add: filter_empty_conv)
  show ?thesis
    by (simp add: approveSubmission_def f all_named_users_present [OF named] v o Let_def
        countMany_def updateMany_def setParticipants_def del: set_simps)
qed

text \<open>
  Claim C2 says that an approval leaves the participants of the order whose status does
  not allow the transition as they are. The code does not: in campaign 1 (order 100),
  with influencer 10 at Matching, influencer 20 (user 2) at ToBeApproved and influencer
  30 at Paid, \<^verbatim>\<open>approveSubmission(1, [2])\<close> validates user 2 only, succeeds with the
  count 3, and leaves all three rows of the order at Approved; the row of order 200 is
  not touched.
\<close>

theorem approveSubmission_example:
  "approveSubmission CampaignService
     (exampleDb [row 1 100 10 Matching, row 2 100 20 ToBeApproved, row 3 100 30 Paid,
                 row 4 200 10 Matching]) 1 [2]
   = (Inr 3, exampleDb [row 1 100 10 Approved, row 2 100 20 Approved, row 3 100 30 Approved,
                        row 4 200 10 Matching])"
  by (simp add: approveSubmission_def ex_simps)

section \<open>Finishing\<close>

text \<open>
  Claim C3 says that finishing an order moves only that order's Approved participants
  to ToBePaid. The code does not: finishing campaign 1 (order 100) sets order 100 to
  Finished, moves its Approved row to ToBePaid, leaves its ToBeSubmitted row, and also
  moves the Approved row of order 200 to ToBePaid.
\<close>

theorem finishCampaign_example:
  "finishCampaign NoFault CampaignService
     (exampleDb [row 1 100 10 Approved, row 2 100 20 ToBeSubmitted, row 3 200 10 Approved]) 1
   = (Inr \<lparr>productId = 1, platformProductOrderId = 100, declaredType = Some 1\<rparr>,
      setOrderStatus
        (exampleDb [row 1 100 10 ToBePaid, row 2 100 20 ToBeSubmitted, row 3 200 10 ToBePaid])
        100 Finished)"
  by (simp add: finishCampaign_def transaction_def txApprovedToBePaid_def setOrderStatus_def ex_simps)

text \<open>
  Claim C4 says that the two writes of finishing an order take effect together or not
  at all. The code does not guarantee it: when the commit of the transaction fails, the
  call fails and the Approved row is still Approved, but the order is Finished, since
  its update did not go through the transaction.
\<close>

theorem finishCampaign_commit_fails:
  "finishCampaign CommitFails CampaignService
     (exampleDb [row 1 100 10 Approved, row 2 100 20 ToBeSubmitted]) 1
   = (Inl PrismaFailure,
      setOrderStatus (exampleDb [row 1 100 10 Approved, row 2 100 20 ToBeSubmitted]) 100 Finished)"
  by (simp add: finishCampaign_def transaction_def txApprovedToBePaid_def setOrderStatus_def ex_simps)

text \<open>What a finished order leaves, for every fault.\<close>

lemma finishCampaign_outcomes:
  assumes f: "findUniqueOrThrow svc d pid = Inr (c, ord)" and s: "orderStatus ord = OnGoing"
  shows "finishCampaign flt svc d pid =
           (case flt of
              NoFault \<Rightarrow> (Inr c, txApprovedToBePaid (setOrderStatus d (orderId ord) Finished))
            | FirstWriteFails \<Rightarrow> (Inl PrismaFailure, d)
            | SecondWriteFails \<Rightarrow> (Inl PrismaFailure, d)
            | CommitFails \<Rightarrow> (Inl PrismaFailure, setOrderStatus d (orderId ord) Finished))"
proof -
  have o: "platformProductOrderId c = orderId ord" using findUniqueOrThrow_Inr [OF f] by simp
  show ?thesis
    by (cases flt) (simp_all add: finishCampaign_def f s o transaction_def)
qed

text \<open>The two writes of a submission go through the transaction: whatever fails, either
  both are in the database or none.\<close>

lemma submitInfluencerData_atomic:
  "snd (submitInfluencerData flt h d pid user link) = d
   \<or> (\<exists>k i. snd (submitInfluencerData flt h d pid user link)
               = upsertPerformance h pid i link (txUpdateStatus k ToBeApproved d))"
  by (cases flt)
     (auto simp add: submitInfluencerData_def transaction_def Let_def
        split: option.splits sum.splits list.splits)

lemma submitSurveyResult_atomic:
  "snd (submitSurveyResult flt d pid user dat) = d
   \<or> (\<exists>k. snd (submitSurveyResult flt d pid user dat)
               = upsertResponse (callerId user) pid (fst dat) (fst (snd dat)) (snd (snd dat))
                   (txUpdateStatus k ToBeApproved d))"
  by (cases flt)
     (auto simp add: submitSurveyResult_def transaction_def Let_def
        split: option.splits sum.splits list.splits)


section \<open>Source states\<close>

lemma invalid_nonempty:
  assumes "p \<in> set sel" and "\<not> ok (status p)"
  shows "filter (\<lambda>q. \<not> ok (status q)) sel \<noteq> []"
  using assms by (auto simp add: filter_empty_conv)

lemma inviteInfluencers_rejects:
  assumes f: "findUniqueOrThrow svc d pid = Inr (c, ord)"
    and p: "p \<in> set (ofInfluencerIdIn d (orderId ord) ids)"
    and st: "status p \<noteq> Added" "status p \<noteq> Invited"
  shows "isBadRequest (fst (inviteInfluencers svc d pid ids)) \<and> snd (inviteInfluencers svc d pid ids) = d"
proof -
  have "filter (\<lambda>q. \<not> (status q = Added \<or> status q = Invited)) (ofInfluencerIdIn d (orderId ord) ids) \<noteq> []"
    using p st by (intro invalid_nonempty [where p = p]) simp_all
  then show ?thesis
    by (simp add: inviteInfluencers_def f Let_def)
qed

lemma confirmMatch_rejects:
  assumes f: "findUniqueOrThrow CampaignService d pid = Inr (c, ord)"
    and p: "p \<in> set (ofInfluencerUserIdIn d (orderId ord) ids)"
    and st: "status p \<noteq> Matching"
  shows "isBadRequest (fst (confirmMatch d pid ids)) \<and> snd (confirmMatch d pid ids) = d"
proof -
  have "filter (\<lambda>q. \<not> (status q = Matching)) (ofInfluencerUserIdIn d (orderId ord) ids) \<noteq> []"
    using p st by (intro invalid_nonempty [where p = p]) simp_all
  then show ?thesis
    by (simp add: confirmMatch_def f Let_def)
qed

lemma approveSubmission_rejects:
  assumes f: "findUniqueOrThrow svc d pid = Inr (c, ord)"
    and p: "p \<in> set (ofInfluencerUserIdIn d (orderId ord) ids)"
    and st: "status p \<noteq> ToBeApproved" "status p \<noteq> NotApproved"
  shows "isBadRequest (fst (approveSubmission svc d pid ids)) \<and> snd (approveSubmission svc d pid ids) = d"
proof -
  have "filter (\<lambda>q. \<not> (status q = ToBeApproved \<or> status q = NotApproved))
          (ofInfluencerUserIdIn d (orderId ord) ids) \<noteq> []"
    using p st by (intro invalid_nonempty [where p = p]) simp_all
  then show ?thesis
    by (simp add: approveSubmission_def f Let_def)
qed

lemma disapproveSubmission_rejects:
  assumes f: "findUniqueOrThrow svc d pid = Inr (c, ord)"
    and p: "p \<in> set (ofInfluencerUserIdIn d (orderId ord) ids)"
    and st: "status p \<noteq> ToBeApproved"
  shows "isBadRequest (fst (disapproveSubmission svc d pid ids))
       \<and> snd (disapproveSubmission svc d pid ids) = d"
proof -
  have "filter (\<lambda>q. \<not> (status q = ToBeApproved)) (ofInfluencerUserIdIn d (orderId ord) ids) \<noteq> []"
    using p st by (intro invalid_nonempty [where p = p]) simp_all
  then show ?thesis
    by (simp add: disapproveSubmission_def f Let_def)
qed

lemma submitInfluencerData_rejects:
  assumes u: "callerInfluencer user = Some i"
    and f: "findUniqueOrThrow CampaignService d pid = Inr (c, ord)"
    and one: "ofInfluencer d (orderId ord) i = p # rest"
    and st: "status p \<noteq> ToBeSubmitted" "status p \<noteq> NotApproved"
  shows "submitInfluencerData flt h d pid user link = (Inl Forbidden, d)"
  by (simp add: submitInfluencerData_def u f one st)

lemma submitSurveyResult_rejects:
  assumes u: "callerInfluencer user = Some i"
    and f: "findUniqueOrThrow SurveysService d pid = Inr (c, ord)"
    and one: "ofInfluencer d (orderId ord) i = p # rest"
    and st: "status p \<noteq> ToBeAnswered" "status p \<noteq> NotApproved"
  shows "submitSurveyResult flt d pid user dat = (Inl Forbidden, d)"
  by (simp add: submitSurveyResult_def u f one st)

lemma removeInfluencerSelf_rejects:
  assumes u: "callerInfluencer user = Some i"
    and f: "findUniqueOrThrow svc d pid = Inr (c, ord)"
    and one: "ofInfluencer d (orderId ord) i = p # rest"
  shows "num (status p) < num Invited \<Longrightarrow>
           removeInfluencerSelf num svc d pid user = (Inl ApplicationException, d)"
    and "status p = Invited \<Longrightarrow> removeInfluencerSelf num svc d pid user = (Inl Forbidden, d)"
  using ofInfluencer_head [OF one]
  by (simp_all add: removeInfluencerSelf_def u f one)

lemma updateMany_keeps:
  assumes "p \<in> set ps" and "\<not> w p"
  shows "p \<in> set (updateMany w s ps)"
proof -
  have "(if w p then p\<lparr>status := s\<rparr> else p) = p" using assms by simp
  then have "p \<in> (\<lambda>q. if w q then q\<lparr>status := s\<rparr> else q) ` set ps"
    using assms(1) by force
  then show ?thesis by (simp add: updateMany_def)
qed


lemma removeInfluencers_snd:
  "snd (removeInfluencers svc d pid ids) = d
   \<or> (\<exists>oid. snd (removeInfluencers svc d pid ids) =
          setParticipants d
            (updateMany (inBucket oid ids (removedFrom svc)) Removed
               (updateMany (inBucket oid ids (notSelectedFrom svc)) NotSelected
                  (platformProductOrderInfluencers d))))"
proof (cases "findUniqueOrThrow svc d pid")
  case (Inl e)
  then show ?thesis by (simp add: removeInfluencers_def)
next
  case (Inr x)
  obtain c ord where x: "x = (c, ord)" by (cases x)
  define bad where "bad = filter (\<lambda>i. find (\<lambda>p. influencerId p = i)
                             (ofInfluencerIdIn d (orderId ord) ids) = None) ids"
  have r: "removeInfluencers svc d pid ids =
     (if bad \<noteq> [] then (Inl (BadRequest (NotInProduct bad)), d)
      else (Inr (countMany (inBucket (platformProductOrderId c) ids (notSelectedFrom svc))
                   (platformProductOrderInfluencers d)
                 + countMany (inBucket (platformProductOrderId c) ids (removedFrom svc))
                     (updateMany (inBucket (platformProductOrderId c) ids (notSelectedFrom svc))
                        NotSelected (platformProductOrderInfluencers d))),
            setParticipants d
              (updateMany (inBucket (platformProductOrderId c) ids (removedFrom svc)) Removed
                 (updateMany (inBucket (platformProductOrderId c) ids (notSelectedFrom svc))
                    NotSelected (platformProductOrderInfluencers d)))))"
    unfolding removeInfluencers_def Inr x bad_def Let_def by simp
  show ?thesis
  proof (cases "bad = []")
    case True
    then have "snd (removeInfluencers svc d pid ids) =
          setParticipants d
            (updateMany (inBucket (platformProductOrderId c) ids (removedFrom svc)) Removed
               (updateMany (inBucket (platformProductOrderId c) ids (notSelectedFrom svc)) NotSelected
                  (platformProductOrderInfluencers d)))"
      unfolding r by simp
    then show ?thesis by (intro disjI2 exI)
  next
    case False
    then show ?thesis unfolding r by simp
  qed
qed


lemma removeInfluencers_keeps:
  assumes p: "p \<in> set (platformProductOrderInfluencers d)"
    and st: "status p \<notin> set (notSelectedFrom svc)" "status p \<notin> set (removedFrom svc)"
  shows "p \<in> set (platformProductOrderInfluencers (snd (removeInfluencers svc d pid ids)))"
proof -
  have k: "p \<in> set (updateMany (inBucket oid ids (removedFrom svc)) Removed
                     (updateMany (inBucket oid ids (notSelectedFrom svc)) NotSelected
                        (platformProductOrderInfluencers d)))" for oid
  proof -
    have a: "\<not> inBucket oid ids (notSelectedFrom svc) p" using st by (simp add: inBucket_def)
    have b: "\<not> inBucket oid ids (removedFrom svc) p" using st by (simp add: inBucket_def)
    have "p \<in> set (updateMany (inBucket oid ids (notSelectedFrom svc)) NotSelected
                       (platformProductOrderInfluencers d))"
      using p a by (rule updateMany_keeps [where w = "inBucket oid ids (notSelectedFrom svc)"])
    then show ?thesis
      using b by (rule updateMany_keeps [where w = "inBucket oid ids (removedFrom svc)"])
  qed
  from removeInfluencers_snd [of svc d pid ids] show ?thesis
  proof
    assume "snd (removeInfluencers svc d pid ids) = d"
    then show ?thesis using p by simp
  next
    assume "\<exists>oid. snd (removeInfluencers svc d pid ids) =
          setParticipants d
            (updateMany (inBucket oid ids (removedFrom svc)) Removed
               (updateMany (inBucket oid ids (notSelectedFrom svc)) NotSelected
                  (platformProductOrderInfluencers d)))"
    then obtain oid where "snd (removeInfluencers svc d pid ids) =
          setParticipants d
            (updateMany (inBucket oid ids (removedFrom svc)) Removed
               (updateMany (inBucket oid ids (notSelectedFrom svc)) NotSelected
                  (platformProductOrderInfluencers d)))" ..
    then have "platformProductOrderInfluencers (snd (removeInfluencers svc d pid ids)) =
            updateMany (inBucket oid ids (removedFrom svc)) Removed
               (updateMany (inBucket oid ids (notSelectedFrom svc)) NotSelected
                  (platformProductOrderInfluencers d))"
      by (simp only: participants_setParticipants)
    then show ?thesis using k [of oid] by (simp only:)
  qed
qed

subsection \<open>The operations against the diagram\<close>

lemma rowStep_same: "rowStep num svc q q"
  by (simp add: rowStep_def)

lemma rowStep_status:
  "diagramEdge num svc (status q) s \<Longrightarrow> rowStep num svc q (q\<lparr>status := s\<rparr>)"
  by (simp add: rowStep_def)

lemma followsDiagram_refl: "followsDiagram num svc ps ps"
  by (simp add: followsDiagram_def list_all2_same rowStep_same)

lemma followsDiagram_map:
  assumes "\<And>q. q \<in> set ps \<Longrightarrow> rowStep num svc q (f q)"
  shows "followsDiagram num svc ps (map f ps)"
  using assms by (simp add: followsDiagram_def list_all2_map2 list_all2_same)

lemma followsDiagramOn_map:
  assumes "\<And>q. q \<in> set ps \<Longrightarrow> q \<in> set sel \<Longrightarrow> rowStep num svc q (f q)"
  shows "followsDiagramOn num svc sel ps (map f ps)"
  using assms by (simp add: followsDiagramOn_def list_all2_map2 list_all2_same)

lemma followsDiagramOn_refl: "followsDiagramOn num svc sel ps ps"
  by (simp add: followsDiagramOn_def list_all2_same rowStep_same)

lemma poiId_unique:
  assumes "distinct (map poiId ps)" and "q \<in> set ps" and "ci \<in> set ps" and "poiId q = poiId ci"
  shows "q = ci"
  using assms by (meson distinct_map inj_onD)

text \<open>With distinct row ids, the updates by id write the selected rows and no other.\<close>

lemma updateStatus_row:
  assumes "distinct (map poiId ps)" and "ci \<in> set ps"
  shows "updateStatus (poiId ci) s ps = map (\<lambda>q. if q = ci then q\<lparr>status := s\<rparr> else q) ps"
  unfolding updateStatus_def
  by (rule map_cong) (use assms poiId_unique in auto)

lemma updateEach_rows:
  assumes "distinct (map poiId ps)" and "set sel \<subseteq> set ps"
  shows "updateEach sel s ps = map (\<lambda>q. if q \<in> set sel then q\<lparr>status := s\<rparr> else q) ps"
  unfolding updateEach_alt
proof (rule map_cong)
  fix q
  assume q: "q \<in> set ps"
  have "poiId q \<in> poiId ` set sel \<longleftrightarrow> q \<in> set sel"
  proof
    assume "poiId q \<in> poiId ` set sel"
    then obtain ci where ci: "ci \<in> set sel" "poiId q = poiId ci" by auto
    then have "q = ci" using poiId_unique [OF assms(1) q] assms(2) by blast
    then show "q \<in> set sel" using ci by simp
  next
    assume "q \<in> set sel"
    then show "poiId q \<in> poiId ` set sel" by simp
  qed
  then show "(if poiId q \<in> poiId ` set sel then q\<lparr>status := s\<rparr> else q)
           = (if q \<in> set sel then q\<lparr>status := s\<rparr> else q)" by simp
qed simp

lemma followsDiagram_updateStatus:
  assumes "distinct (map poiId ps)" and "ci \<in> set ps" and "diagramEdge num svc (status ci) s"
  shows "followsDiagram num svc ps (updateStatus (poiId ci) s ps)"
  unfolding updateStatus_row [OF assms(1,2)]
  by (rule followsDiagram_map) (simp add: rowStep_same rowStep_status assms(3))

lemma followsDiagram_updateEach:
  assumes "distinct (map poiId ps)" and "set sel \<subseteq> set ps"
    and "\<And>ci. ci \<in> set sel \<Longrightarrow> diagramEdge num svc (status ci) s"
  shows "followsDiagram num svc ps (updateEach sel s ps)"
  unfolding updateEach_rows [OF assms(1,2)]
  by (rule followsDiagram_map) (simp add: rowStep_same rowStep_status assms(3))

lemma ofInfluencerIdIn_subset:
  "set (ofInfluencerIdIn d oid ids) \<subseteq> set (platformProductOrderInfluencers d)"
  by (auto simp add: ofInfluencerIdIn_def)

lemma ofInfluencerUserIdIn_subset:
  "set (ofInfluencerUserIdIn d oid ids) \<subseteq> set (platformProductOrderInfluencers d)"
  by (auto simp add: ofInfluencerUserIdIn_def)

lemma ofInfluencer_subset:
  "set (ofInfluencer d oid i) \<subseteq> set (platformProductOrderInfluencers d)"
  by (auto simp add: ofInfluencer_def)

text \<open>What an invitation leaves: the database as it was, or Invited written to the named
  rows of the order, all of which were at Added or Invited.\<close>

lemma inviteInfluencers_outcome:
  "inviteInfluencers svc d pid ids = (fst (inviteInfluencers svc d pid ids), d)
   \<or> (\<exists>c ord. findUniqueOrThrow svc d pid = Inr (c, ord)
        \<and> (\<forall>i\<in>set ids. \<exists>q\<in>set (ofInfluencerIdIn d (orderId ord) ids). influencerId q = i)
        \<and> (\<forall>q\<in>set (ofInfluencerIdIn d (orderId ord) ids). status q = Added \<or> status q = Invited)
        \<and> inviteInfluencers svc d pid ids =
            (Inr (map (\<lambda>q. q\<lparr>status := Invited\<rparr>) (ofInfluencerIdIn d (orderId ord) ids)),
             setParticipants d
               (updateEach (ofInfluencerIdIn d (orderId ord) ids) Invited
                  (platformProductOrderInfluencers d))))"
proof (cases "findUniqueOrThrow svc d pid")
  case (Inl e)
  then show ?thesis by (simp add: inviteInfluencers_def)
next
  case (Inr x)
  obtain c ord where x: "x = (c, ord)" by (cases x)
  define sel where "sel = ofInfluencerIdIn d (orderId ord) ids"
  define bad where "bad = filter (\<lambda>i. find (\<lambda>p. influencerId p = i) sel = None) ids"
  define inv where "inv = filter (\<lambda>p. status p \<notin> set [Added, Invited]) sel"
  have r: "inviteInfluencers svc d pid ids =
     (if bad \<noteq> [] then (Inl (BadRequest (NotInProduct bad)), d)
      else if inv \<noteq> [] then (Inl (BadRequest (InvalidState (length inv))), d)
      else (Inr (map (\<lambda>q. q\<lparr>status := Invited\<rparr>) sel),
            setParticipants d (updateEach sel Invited (platformProductOrderInfluencers d))))"
    unfolding inviteInfluencers_def Inr x bad_def inv_def sel_def Let_def by simp
  show ?thesis
  proof (cases "bad = [] \<and> inv = []")
    case False
    then have "inviteInfluencers svc d pid ids = (fst (inviteInfluencers svc d pid ids), d)"
      unfolding r by auto
    then show ?thesis by (rule disjI1)
  next
    case True
    have a: "\<forall>i\<in>set ids. \<exists>q\<in>set sel. influencerId q = i"
      using True by (auto simp add: bad_def filter_empty_conv find_None_iff)
    have b: "\<forall>q\<in>set sel. status q = Added \<or> status q = Invited"
      using True by (auto simp add: inv_def filter_empty_conv)
    have "inviteInfluencers svc d pid ids =
            (Inr (map (\<lambda>q. q\<lparr>status := Invited\<rparr>) sel),
             setParticipants d (updateEach sel Invited (platformProductOrderInfluencers d)))"
      unfolding r using True by simp
    then show ?thesis
      using Inr x a b unfolding sel_def by (intro disjI2 exI [of _ c] exI [of _ ord]) simp
  qed
qed


lemma inviteInfluencers_follows:
  assumes "distinct (map poiId (platformProductOrderInfluencers d))"
  shows "followsDiagram num svc (platformProductOrderInfluencers d)
           (platformProductOrderInfluencers (snd (inviteInfluencers svc d pid ids)))"
proof -
  from inviteInfluencers_outcome [of svc d pid ids] show ?thesis
  proof
    assume "inviteInfluencers svc d pid ids = (fst (inviteInfluencers svc d pid ids), d)"
    then have "snd (inviteInfluencers svc d pid ids) = d" by (metis snd_conv)
    then show ?thesis by (simp add: followsDiagram_refl)
  next
    assume "\<exists>c ord. findUniqueOrThrow svc d pid = Inr (c, ord)
        \<and> (\<forall>i\<in>set ids. \<exists>q\<in>set (ofInfluencerIdIn d (orderId ord) ids). influencerId q = i)
        \<and> (\<forall>q\<in>set (ofInfluencerIdIn d (orderId ord) ids). status q = Added \<or> status q = Invited)
        \<and> inviteInfluencers svc d pid ids =
            (Inr (map (\<lambda>q. q\<lparr>status := Invited\<rparr>) (ofInfluencerIdIn d (orderId ord) ids)),
             setParticipants d
               (updateEach (ofInfluencerIdIn d (orderId ord) ids) Invited
                  (platformProductOrderInfluencers d)))"
    then obtain ord :: PlatformProductOrder where
      b: "\<forall>q\<in>set (ofInfluencerIdIn d (orderId ord) ids). status q = Added \<or> status q = Invited"
      and r: "inviteInfluencers svc d pid ids =
            (Inr (map (\<lambda>q. q\<lparr>status := Invited\<rparr>) (ofInfluencerIdIn d (orderId ord) ids)),
             setParticipants d
               (updateEach (ofInfluencerIdIn d (orderId ord) ids) Invited
                  (platformProductOrderInfluencers d)))"
      by blast
    have "followsDiagram num svc (platformProductOrderInfluencers d)
            (updateEach (ofInfluencerIdIn d (orderId ord) ids) Invited
               (platformProductOrderInfluencers d))"
    proof (rule followsDiagram_updateEach [OF assms ofInfluencerIdIn_subset])
      fix ci
      assume "ci \<in> set (ofInfluencerIdIn d (orderId ord) ids)"
      then have "status ci = Added \<or> status ci = Invited" using b by blast
      then show "diagramEdge num svc (status ci) Invited" by (auto simp add: diagramEdge_def)
    qed
    then show ?thesis by (simp add: r)
  qed
qed

text \<open>Acceptance and decline.\<close>

lemma answerInvitation_outcome:
  "answerInvitation next svc d pid user = (fst (answerInvitation next svc d pid user), d)
   \<or> (\<exists>ci. ci \<in> set (platformProductOrderInfluencers d) \<and> status ci = Invited
        \<and> answerInvitation next svc d pid user =
            (Inr (ci\<lparr>status := next\<rparr>),
             setParticipants d (updateStatus (poiId ci) next (platformProductOrderInfluencers d))))"
proof (cases "callerInfluencer user")
  case None
  then show ?thesis by (simp add: answerInvitation_def)
next
  case (Some i)
  show ?thesis
  proof (cases "findUniqueOrThrow svc d pid")
    case (Inl e)
    then show ?thesis by (simp add: answerInvitation_def Some)
  next
    case (Inr x)
    obtain c ord where x: "x = (c, ord)" by (cases x)
    show ?thesis
    proof (cases "ofInfluencer d (orderId ord) i")
      case Nil
      then show ?thesis by (simp add: answerInvitation_def Some Inr x)
    next
      case (Cons ci rest)
      have m: "ci \<in> set (platformProductOrderInfluencers d)"
        using ofInfluencer_subset [of d "orderId ord" i] Cons by auto
      show ?thesis
      proof (cases "status ci = Invited")
        case True
        have "answerInvitation next svc d pid user =
            (Inr (ci\<lparr>status := next\<rparr>),
             setParticipants d (updateStatus (poiId ci) next (platformProductOrderInfluencers d)))"
          by (simp add: answerInvitation_def Some Inr x Cons True)
        then show ?thesis using m True by (intro disjI2 exI [of _ ci]) simp
      next
        case False
        then show ?thesis by (simp add: answerInvitation_def Some Inr x Cons)
      qed
    qed
  qed
qed

lemma answerInvitation_follows:
  assumes "distinct (map poiId (platformProductOrderInfluencers d))"
    and "diagramEdge num svc Invited next"
  shows "followsDiagram num svc (platformProductOrderInfluencers d)
           (platformProductOrderInfluencers (snd (answerInvitation next svc d pid user)))"
proof -
  from answerInvitation_outcome [of "next" svc d pid user] show ?thesis
  proof
    assume "answerInvitation next svc d pid user = (fst (answerInvitation next svc d pid user), d)"
    then have "snd (answerInvitation next svc d pid user) = d" by (metis snd_conv)
    then show ?thesis by (simp add: followsDiagram_refl)
  next
    assume "\<exists>ci. ci \<in> set (platformProductOrderInfluencers d) \<and> status ci = Invited
        \<and> answerInvitation next svc d pid user =
            (Inr (ci\<lparr>status := next\<rparr>),
             setParticipants d (updateStatus (poiId ci) next (platformProductOrderInfluencers d)))"
    then obtain ci where m: "ci \<in> set (platformProductOrderInfluencers d)"
      and st: "status ci = Invited"
      and r: "answerInvitation next svc d pid user =
            (Inr (ci\<lparr>status := next\<rparr>),
             setParticipants d (updateStatus (poiId ci) next (platformProductOrderInfluencers d)))"
      by blast
    have "followsDiagram num svc (platformProductOrderInfluencers d)
            (updateStatus (poiId ci) next (platformProductOrderInfluencers d))"
      using assms(2) by (intro followsDiagram_updateStatus [OF assms(1) m]) (simp add: st)
    then show ?thesis by (simp add: r)
  qed
qed

lemma acceptedStatus_edge: "diagramEdge num svc Invited (acceptedStatus svc)"
  by (cases svc) (simp_all add: diagramEdge_def)

lemma Declined_edge: "diagramEdge num svc Invited Declined"
  by (simp add: diagramEdge_def)

text \<open>The confirmed match.\<close>

lemma confirmMatch_outcome:
  "confirmMatch d pid ids = (fst (confirmMatch d pid ids), d)
   \<or> (\<exists>c ord. findUniqueOrThrow CampaignService d pid = Inr (c, ord)
        \<and> (\<forall>u\<in>set ids. \<exists>q\<in>set (ofInfluencerUserIdIn d (orderId ord) ids).
               influencerUserId d q = Some u)
        \<and> (\<forall>q\<in>set (ofInfluencerUserIdIn d (orderId ord) ids). status q = Matching)
        \<and> confirmMatch d pid ids =
            (Inr (map (\<lambda>q. q\<lparr>status := ToBeSubmitted\<rparr>) (ofInfluencerUserIdIn d (orderId ord) ids)),
             setParticipants d
               (updateEach (ofInfluencerUserIdIn d (orderId ord) ids) ToBeSubmitted
                  (platformProductOrderInfluencers d))))"
proof (cases "findUniqueOrThrow CampaignService d pid")
  case (Inl e)
  then show ?thesis by (simp add: confirmMatch_def)
next
  case (Inr x)
  obtain c ord where x: "x = (c, ord)" by (cases x)
  define sel where "sel = ofInfluencerUserIdIn d (orderId ord) ids"
  define bad where "bad = filter (\<lambda>i. find (\<lambda>p. influencerUserId d p = Some i) sel = None) ids"
  define inv where "inv = filter (\<lambda>p. status p \<noteq> Matching) sel"
  have r: "confirmMatch d pid ids =
     (if bad \<noteq> [] then (Inl (BadRequest (NotInProduct bad)), d)
      else if inv \<noteq> [] then (Inl (BadRequest (InvalidState (length inv))), d)
      else (Inr (map (\<lambda>q. q\<lparr>status := ToBeSubmitted\<rparr>) sel),
            setParticipants d (updateEach sel ToBeSubmitted (platformProductOrderInfluencers d))))"
    unfolding confirmMatch_def Inr x bad_def inv_def sel_def Let_def by simp
  show ?thesis
  proof (cases "bad = [] \<and> inv = []")
    case False
    then have "confirmMatch d pid ids = (fst (confirmMatch d pid ids), d)"
      unfolding r by auto
    then show ?thesis by (rule disjI1)
  next
    case True
    have a: "\<forall>u\<in>set ids. \<exists>q\<in>set sel. influencerUserId d q = Some u"
      using True by (auto simp add: bad_def filter_empty_conv find_None_iff)
    have b: "\<forall>q\<in>set sel. status q = Matching"
      using True by (auto simp add: inv_def filter_empty_conv)
    have "confirmMatch d pid ids =
            (Inr (map (\<lambda>q. q\<lparr>status := ToBeSubmitted\<rparr>) sel),
             setParticipants d (updateEach sel ToBeSubmitted (platformProductOrderInfluencers d)))"
      unfolding r using True by simp
    then show ?thesis
      using Inr x a b unfolding sel_def by (intro disjI2 exI [of _ c] exI [of _ ord]) simp
  qed
qed

lemma confirmMatch_follows:
  assumes "distinct (map poiId (platformProductOrderInfluencers d))"
  shows "followsDiagram num CampaignService (platformProductOrderInfluencers d)
           (platformProductOrderInfluencers (snd (confirmMatch d pid ids)))"
proof -
  from confirmMatch_outcome [of d pid ids] show ?thesis
  proof
    assume "confirmMatch d pid ids = (fst (confirmMatch d pid ids), d)"
    then have "snd (confirmMatch d pid ids) = d" by (metis snd_conv)
    then show ?thesis by (simp add: followsDiagram_refl)
  next
    assume "\<exists>c ord. findUniqueOrThrow CampaignService d pid = Inr (c, ord)
        \<and> (\<forall>u\<in>set ids. \<exists>q\<in>set (ofInfluencerUserIdIn d (orderId ord) ids).
               influencerUserId d q = Some u)
        \<and> (\<forall>q\<in>set (ofInfluencerUserIdIn d (orderId ord) ids). status q = Matching)
        \<and> confirmMatch d pid ids =
            (Inr (map (\<lambda>q. q\<lparr>status := ToBeSubmitted\<rparr>) (ofInfluencerUserIdIn d (orderId ord) ids)),
             setParticipants d
               (updateEach (ofInfluencerUserIdIn d (orderId ord) ids) ToBeSubmitted
                  (platformProductOrderInfluencers d)))"
    then obtain ord :: PlatformProductOrder where
      b: "\<forall>q\<in>set (ofInfluencerUserIdIn d (orderId ord) ids). status q = Matching"
      and r: "confirmMatch d pid ids =
            (Inr (map (\<lambda>q. q\<lparr>status := ToBeSubmitted\<rparr>) (ofInfluencerUserIdIn d (orderId ord) ids)),
             setParticipants d
               (updateEach (ofInfluencerUserIdIn d (orderId ord) ids) ToBeSubmitted
                  (platformProductOrderInfluencers d)))"
      by blast
    have "followsDiagram num CampaignService (platformProductOrderInfluencers d)
            (updateEach (ofInfluencerUserIdIn d (orderId ord) ids) ToBeSubmitted
               (platformProductOrderInfluencers d))"
    proof (rule followsDiagram_updateEach [OF assms ofInfluencerUserIdIn_subset])
      fix ci
      assume "ci \<in> set (ofInfluencerUserIdIn d (orderId ord) ids)"
      then have "status ci = Matching" using b by blast
      then show "diagramEdge num CampaignService (status ci) ToBeSubmitted"
        by (simp add: diagramEdge_def)
    qed
    then show ?thesis by (simp add: r)
  qed
qed


text \<open>Submission.\<close>

lemma participants_upsertPerformance:
  "platformProductOrderInfluencers (upsertPerformance h cid i link x) = platformProductOrderInfluencers x"
  by (simp add: upsertPerformance_def)

lemma participants_upsertResponse:
  "platformProductOrderInfluencers (upsertResponse u sid q opt txt x) = platformProductOrderInfluencers x"
  by (simp add: upsertResponse_def)

lemma participants_txUpdateStatus:
  "platformProductOrderInfluencers (txUpdateStatus k s x) = updateStatus k s (platformProductOrderInfluencers x)"
  by (simp add: txUpdateStatus_def)

lemma submitInfluencerData_participants:
  "platformProductOrderInfluencers (snd (submitInfluencerData flt h d pid user link))
     = platformProductOrderInfluencers d
   \<or> (\<exists>ci. ci \<in> set (platformProductOrderInfluencers d)
          \<and> (status ci = ToBeSubmitted \<or> status ci = NotApproved)
          \<and> platformProductOrderInfluencers (snd (submitInfluencerData flt h d pid user link))
              = updateStatus (poiId ci) ToBeApproved (platformProductOrderInfluencers d))"
proof (cases "callerInfluencer user")
  case None
  then show ?thesis by (simp add: submitInfluencerData_def)
next
  case (Some i)
  show ?thesis
  proof (cases "findUniqueOrThrow CampaignService d pid")
    case (Inl e)
    then show ?thesis by (simp add: submitInfluencerData_def Some)
  next
    case (Inr x)
    obtain c ord where x: "x = (c, ord)" by (cases x)
    show ?thesis
    proof (cases "ofInfluencer d (orderId ord) i")
      case Nil
      then show ?thesis by (simp add: submitInfluencerData_def Some Inr x)
    next
      case (Cons ci rest)
      have m: "ci \<in> set (platformProductOrderInfluencers d)"
        using ofInfluencer_subset [of d "orderId ord" i] Cons by auto
      show ?thesis
      proof (cases "status ci = ToBeSubmitted \<or> status ci = NotApproved")
        case False
        then show ?thesis by (simp add: submitInfluencerData_def Some Inr x Cons)
      next
        case True
        have "platformProductOrderInfluencers (snd (submitInfluencerData flt h d pid user link))
                = platformProductOrderInfluencers d
              \<or> platformProductOrderInfluencers (snd (submitInfluencerData flt h d pid user link))
                = updateStatus (poiId ci) ToBeApproved (platformProductOrderInfluencers d)"
          using True
          by (cases flt)
             (auto simp add: submitInfluencerData_def Some Inr x Cons transaction_def
                participants_upsertPerformance participants_txUpdateStatus)
        then show ?thesis using m True by blast
      qed
    qed
  qed
qed

lemma submitSurveyResult_participants:
  "platformProductOrderInfluencers (snd (submitSurveyResult flt d pid user dat))
     = platformProductOrderInfluencers d
   \<or> (\<exists>ci. ci \<in> set (platformProductOrderInfluencers d)
          \<and> (status ci = ToBeAnswered \<or> status ci = NotApproved)
          \<and> platformProductOrderInfluencers (snd (submitSurveyResult flt d pid user dat))
              = updateStatus (poiId ci) ToBeApproved (platformProductOrderInfluencers d))"
proof (cases "callerInfluencer user")
  case None
  then show ?thesis by (simp add: submitSurveyResult_def)
next
  case (Some i)
  show ?thesis
  proof (cases "findUniqueOrThrow SurveysService d pid")
    case (Inl e)
    then show ?thesis by (simp add: submitSurveyResult_def Some)
  next
    case (Inr x)
    obtain c ord where x: "x = (c, ord)" by (cases x)
    show ?thesis
    proof (cases "ofInfluencer d (orderId ord) i")
      case Nil
      then show ?thesis by (simp add: submitSurveyResult_def Some Inr x)
    next
      case (Cons ci rest)
      have m: "ci \<in> set (platformProductOrderInfluencers d)"
        using ofInfluencer_subset [of d "orderId ord" i] Cons by auto
      show ?thesis
      proof (cases "status ci = ToBeAnswered \<or> status ci = NotApproved")
        case False
        then show ?thesis by (simp add: submitSurveyResult_def Some Inr x Cons)
      next
        case True
        have "platformProductOrderInfluencers (snd (submitSurveyResult flt d pid user dat))
                = platformProductOrderInfluencers d
              \<or> platformProductOrderInfluencers (snd (submitSurveyResult flt d pid user dat))
                = updateStatus (poiId ci) ToBeApproved (platformProductOrderInfluencers d)"
          using True
          by (cases flt)
             (auto simp add: submitSurveyResult_def Some Inr x Cons transaction_def
                participants_upsertResponse participants_txUpdateStatus)
        then show ?thesis using m True by blast
      qed
    qed
  qed
qed

lemma submitInfluencerData_follows:
  assumes "distinct (map poiId (platformProductOrderInfluencers d))"
  shows "followsDiagram num CampaignService (platformProductOrderInfluencers d)
           (platformProductOrderInfluencers (snd (submitInfluencerData flt h d pid user link)))"
proof -
  from submitInfluencerData_participants [of flt h d pid user link] show ?thesis
  proof
    assume "platformProductOrderInfluencers (snd (submitInfluencerData flt h d pid user link))
              = platformProductOrderInfluencers d"
    then show ?thesis by (simp add: followsDiagram_refl)
  next
    assume "\<exists>ci. ci \<in> set (platformProductOrderInfluencers d)
          \<and> (status ci = ToBeSubmitted \<or> status ci = NotApproved)
          \<and> platformProductOrderInfluencers (snd (submitInfluencerData flt h d pid user link))
              = updateStatus (poiId ci) ToBeApproved (platformProductOrderInfluencers d)"
    then obtain ci where m: "ci \<in> set (platformProductOrderInfluencers d)"
      and st: "status ci = ToBeSubmitted \<or> status ci = NotApproved"
      and r: "platformProductOrderInfluencers (snd (submitInfluencerData flt h d pid user link))
              = updateStatus (poiId ci) ToBeApproved (platformProductOrderInfluencers d)"
      by blast
    have "diagramEdge num CampaignService (status ci) ToBeApproved"
      using st by (auto simp add: diagramEdge_def)
    then show ?thesis
      unfolding r by (rule followsDiagram_updateStatus [OF assms m])
  qed
qed

lemma submitSurveyResult_follows:
  assumes "distinct (map poiId (platformProductOrderInfluencers d))"
  shows "followsDiagram num SurveysService (platformProductOrderInfluencers d)
           (platformProductOrderInfluencers (snd (submitSurveyResult flt d pid user dat)))"
proof -
  from submitSurveyResult_participants [of flt d pid user dat] show ?thesis
  proof
    assume "platformProductOrderInfluencers (snd (submitSurveyResult flt d pid user dat))
              = platformProductOrderInfluencers d"
    then show ?thesis by (simp add: followsDiagram_refl)
  next
    assume "\<exists>ci. ci \<in> set (platformProductOrderInfluencers d)
          \<and> (status ci = ToBeAnswered \<or> status ci = NotApproved)
          \<and> platformProductOrderInfluencers (snd (submitSurveyResult flt d pid user dat))
              = updateStatus (poiId ci) ToBeApproved (platformProductOrderInfluencers d)"
    then obtain ci where m: "ci \<in> set (platformProductOrderInfluencers d)"
      and st: "status ci = ToBeAnswered \<or> status ci = NotApproved"
      and r: "platformProductOrderInfluencers (snd (submitSurveyResult flt d pid user dat))
              = updateStatus (poiId ci) ToBeApproved (platformProductOrderInfluencers d)"
      by blast
    have "diagramEdge num SurveysService (status ci) ToBeApproved"
      using st by (auto simp add: diagramEdge_def)
    then show ?thesis
      unfolding r by (rule followsDiagram_updateStatus [OF assms m])
  qed
qed

text \<open>Self-removal.\<close>

lemma removeInfluencerSelf_participants:
  "platformProductOrderInfluencers (snd (removeInfluencerSelf num svc d pid user))
     = platformProductOrderInfluencers d
   \<or> (\<exists>ci. ci \<in> set (platformProductOrderInfluencers d)
          \<and> \<not> num (status ci) < num Invited \<and> status ci \<noteq> Invited
          \<and> platformProductOrderInfluencers (snd (removeInfluencerSelf num svc d pid user))
              = updateStatus (poiId ci) Withdrawn (platformProductOrderInfluencers d))"
proof (cases "callerInfluencer user")
  case None
  then show ?thesis by (simp add: removeInfluencerSelf_def)
next
  case (Some i)
  show ?thesis
  proof (cases "findUniqueOrThrow svc d pid")
    case (Inl e)
    then show ?thesis by (simp add: removeInfluencerSelf_def Some)
  next
    case (Inr x)
    obtain c ord where x: "x = (c, ord)" by (cases x)
    show ?thesis
    proof (cases "ofInfluencer d (orderId ord) i")
      case Nil
      then show ?thesis by (simp add: removeInfluencerSelf_def Some Inr x)
    next
      case (Cons ci rest)
      have m: "ci \<in> set (platformProductOrderInfluencers d)"
        using ofInfluencer_subset [of d "orderId ord" i] Cons by auto
      show ?thesis
      proof (cases "num (status ci) < num Invited \<or> status ci = Invited")
        case True
        then show ?thesis by (auto simp add: removeInfluencerSelf_def Some Inr x Cons)
      next
        case False
        then have a: "\<not> num (status ci) < num Invited" and b: "status ci \<noteq> Invited"
          by simp_all
        have "platformProductOrderInfluencers (snd (removeInfluencerSelf num svc d pid user))
              = updateStatus (poiId ci) Withdrawn (platformProductOrderInfluencers d)"
          using ofInfluencer_head [OF Cons]
          by (simp add: removeInfluencerSelf_def Some Inr x Cons a b)
        then show ?thesis using m a b by blast
      qed
    qed
  qed
qed

lemma removeInfluencerSelf_follows:
  assumes "distinct (map poiId (platformProductOrderInfluencers d))"
  shows "followsDiagram num svc (platformProductOrderInfluencers d)
           (platformProductOrderInfluencers (snd (removeInfluencerSelf num svc d pid user)))"
proof -
  from removeInfluencerSelf_participants [of num svc d pid user] show ?thesis
  proof
    assume "platformProductOrderInfluencers (snd (removeInfluencerSelf num svc d pid user))
              = platformProductOrderInfluencers d"
    then show ?thesis by (simp add: followsDiagram_refl)
  next
    assume "\<exists>ci. ci \<in> set (platformProductOrderInfluencers d)
          \<and> \<not> num (status ci) < num Invited \<and> status ci \<noteq> Invited
          \<and> platformProductOrderInfluencers (snd (removeInfluencerSelf num svc d pid user))
              = updateStatus (poiId ci) Withdrawn (platformProductOrderInfluencers d)"
    then obtain ci where m: "ci \<in> set (platformProductOrderInfluencers d)"
      and st: "\<not> num (status ci) < num Invited" "status ci \<noteq> Invited"
      and r: "platformProductOrderInfluencers (snd (removeInfluencerSelf num svc d pid user))
              = updateStatus (poiId ci) Withdrawn (platformProductOrderInfluencers d)"
      by blast
    have "diagramEdge num svc (status ci) Withdrawn"
      using st by (simp add: diagramEdge_def)
    then show ?thesis
      unfolding r by (rule followsDiagram_updateStatus [OF assms m])
  qed
qed


text \<open>Removal by the client.\<close>

lemma bucket_edges:
  "inBucket oid ids (notSelectedFrom svc) q \<Longrightarrow> diagramEdge num svc (status q) NotSelected"
  "inBucket oid ids (removedFrom svc) q \<Longrightarrow> diagramEdge num svc (status q) Removed"
  by (cases svc; auto simp add: inBucket_def diagramEdge_def)+

lemma removeInfluencers_follows:
  "followsDiagram num svc (platformProductOrderInfluencers d)
     (platformProductOrderInfluencers (snd (removeInfluencers svc d pid ids)))"
proof -
  from removeInfluencers_snd [of svc d pid ids] show ?thesis
  proof
    assume "snd (removeInfluencers svc d pid ids) = d"
    then show ?thesis by (simp add: followsDiagram_refl)
  next
    assume "\<exists>oid. snd (removeInfluencers svc d pid ids) =
          setParticipants d
            (updateMany (inBucket oid ids (removedFrom svc)) Removed
               (updateMany (inBucket oid ids (notSelectedFrom svc)) NotSelected
                  (platformProductOrderInfluencers d)))"
    then obtain oid where r: "snd (removeInfluencers svc d pid ids) =
          setParticipants d
            (updateMany (inBucket oid ids (removedFrom svc)) Removed
               (updateMany (inBucket oid ids (notSelectedFrom svc)) NotSelected
                  (platformProductOrderInfluencers d)))" ..
    let ?w1 = "inBucket oid ids (notSelectedFrom svc)"
    let ?w2 = "inBucket oid ids (removedFrom svc)"
    let ?ps = "platformProductOrderInfluencers d"
    have u: "updateMany ?w2 Removed (updateMany ?w1 NotSelected ?ps)
             = map (\<lambda>p. if ?w1 p then p\<lparr>status := NotSelected\<rparr>
                         else if ?w2 p then p\<lparr>status := Removed\<rparr> else p) ?ps"
      by (rule two_updateMany) (simp_all add: inBucket_facts)
    have "followsDiagram num svc ?ps
            (map (\<lambda>p. if ?w1 p then p\<lparr>status := NotSelected\<rparr>
                         else if ?w2 p then p\<lparr>status := Removed\<rparr> else p) ?ps)"
      by (rule followsDiagram_map) (simp add: rowStep_same rowStep_status bucket_edges)
    then show ?thesis by (simp only: r u participants_setParticipants)
  qed
qed

text \<open>Approval and disapproval: the rows the call names.\<close>

lemma approveSubmission_followsOn:
  assumes f: "findUniqueOrThrow svc d pid = Inr (c, ord)"
  shows "followsDiagramOn num svc (ofInfluencerUserIdIn d (orderId ord) ids)
           (platformProductOrderInfluencers d)
           (platformProductOrderInfluencers (snd (approveSubmission svc d pid ids)))"
proof -
  define sel where "sel = ofInfluencerUserIdIn d (orderId ord) ids"
  define bad where "bad = filter (\<lambda>i. find (\<lambda>p. influencerUserId d p = Some i) sel = None) ids"
  define inv where "inv = filter (\<lambda>p. status p \<notin> set [ToBeApproved, NotApproved]) sel"
  define w where "w = (\<lambda>p :: PlatformProductOrderInfluencer. productOrderId p = platformProductOrderId c)"
  have r: "approveSubmission svc d pid ids =
     (if bad \<noteq> [] then (Inl (BadRequest (NotInProduct bad)), d)
      else if inv \<noteq> [] then (Inl (BadRequest (InvalidState (length inv))), d)
      else (Inr (countMany w (platformProductOrderInfluencers d)),
            setParticipants d (updateMany w Approved (platformProductOrderInfluencers d))))"
    unfolding approveSubmission_def f bad_def inv_def sel_def w_def Let_def by simp
  show ?thesis
  proof (cases "bad = [] \<and> inv = []")
    case False
    then have "snd (approveSubmission svc d pid ids) = d" unfolding r by auto
    then show ?thesis by (simp add: followsDiagramOn_refl)
  next
    case True
    have b: "\<And>q. q \<in> set sel \<Longrightarrow> status q = ToBeApproved \<or> status q = NotApproved"
      using True by (auto simp add: inv_def filter_empty_conv)
    have p: "platformProductOrderInfluencers (snd (approveSubmission svc d pid ids))
               = map (\<lambda>q. if w q then q\<lparr>status := Approved\<rparr> else q) (platformProductOrderInfluencers d)"
      unfolding r using True by (simp add: updateMany_def)
    have "followsDiagramOn num svc sel (platformProductOrderInfluencers d)
            (map (\<lambda>q. if w q then q\<lparr>status := Approved\<rparr> else q) (platformProductOrderInfluencers d))"
    proof (rule followsDiagramOn_map)
      fix q
      assume "q \<in> set sel"
      then have "diagramEdge num svc (status q) Approved"
        using b [of q] by (auto simp add: diagramEdge_def)
      then show "rowStep num svc q (if w q then q\<lparr>status := Approved\<rparr> else q)"
        by (simp add: rowStep_same rowStep_status)
    qed
    then show ?thesis unfolding p sel_def .
  qed
qed

lemma disapproveSubmission_followsOn:
  assumes f: "findUniqueOrThrow svc d pid = Inr (c, ord)"
  shows "followsDiagramOn num svc (ofInfluencerUserIdIn d (orderId ord) ids)
           (platformProductOrderInfluencers d)
           (platformProductOrderInfluencers (snd (disapproveSubmission svc d pid ids)))"
proof -
  define sel where "sel = ofInfluencerUserIdIn d (orderId ord) ids"
  define bad where "bad = filter (\<lambda>i. find (\<lambda>p. influencerUserId d p = Some i) sel = None) ids"
  define inv where "inv = filter (\<lambda>p. status p \<noteq> ToBeApproved) sel"
  define w where "w = (\<lambda>p :: PlatformProductOrderInfluencer. productOrderId p = platformProductOrderId c)"
  have r: "snd (disapproveSubmission svc d pid ids) =
     (if bad \<noteq> [] then d
      else if inv \<noteq> [] then d
      else setParticipants d (updateMany w NotApproved (platformProductOrderInfluencers d)))"
    unfolding disapproveSubmission_def f bad_def inv_def sel_def w_def Let_def by simp
  show ?thesis
  proof (cases "bad = [] \<and> inv = []")
    case False
    then have "snd (disapproveSubmission svc d pid ids) = d" unfolding r by auto
    then show ?thesis by (simp add: followsDiagramOn_refl)
  next
    case True
    have b: "\<And>q. q \<in> set sel \<Longrightarrow> status q = ToBeApproved"
      using True by (auto simp add: inv_def filter_empty_conv)
    have p: "platformProductOrderInfluencers (snd (disapproveSubmission svc d pid ids))
               = map (\<lambda>q. if w q then q\<lparr>status := NotApproved\<rparr> else q) (platformProductOrderInfluencers d)"
      unfolding r using True by (simp add: updateMany_def)
    have "followsDiagramOn num svc sel (platformProductOrderInfluencers d)
            (map (\<lambda>q. if w q then q\<lparr>status := NotApproved\<rparr> else q) (platformProductOrderInfluencers d))"
    proof (rule followsDiagramOn_map)
      fix q
      assume "q \<in> set sel"
      then have "diagramEdge num svc (status q) NotApproved"
        using b [of q] by (simp add: diagramEdge_def)
      then show "rowStep num svc q (if w q then q\<lparr>status := NotApproved\<rparr> else q)"
        by (simp add: rowStep_same rowStep_status)
    qed
    then show ?thesis unfolding p sel_def .
  qed
qed

text \<open>Finishing: the bulk step.\<close>

lemma participants_setOrderStatus:
  "platformProductOrderInfluencers (setOrderStatus d oid s) = platformProductOrderInfluencers d"
  by (simp add: setOrderStatus_def)

lemma finishCampaign_participants:
  "platformProductOrderInfluencers (snd (finishCampaign flt svc d pid))
     = platformProductOrderInfluencers d
   \<or> platformProductOrderInfluencers (snd (finishCampaign flt svc d pid))
     = updateMany (\<lambda>p. status p = Approved) ToBePaid (platformProductOrderInfluencers d)"
proof (cases "findUniqueOrThrow svc d pid")
  case (Inl e)
  then show ?thesis by (simp add: finishCampaign_def)
next
  case (Inr x)
  obtain c ord where x: "x = (c, ord)" by (cases x)
  show ?thesis
  proof (cases "orderStatus ord = OnGoing")
    case False
    then show ?thesis by (simp add: finishCampaign_def Inr x)
  next
    case True
    show ?thesis
      using finishCampaign_outcomes [OF Inr [unfolded x] True, of flt]
      by (cases flt)
         (simp_all add: txApprovedToBePaid_def participants_setOrderStatus)
  qed
qed

lemma finishCampaign_follows:
  "followsDiagram num svc (platformProductOrderInfluencers d)
     (platformProductOrderInfluencers (snd (finishCampaign flt svc d pid)))"
proof -
  have "followsDiagram num svc (platformProductOrderInfluencers d)
          (updateMany (\<lambda>p. status p = Approved) ToBePaid (platformProductOrderInfluencers d))"
    unfolding updateMany_def
    by (rule followsDiagram_map) (simp add: rowStep_same rowStep_status diagramEdge_def)
  then show ?thesis
    using finishCampaign_participants [of flt svc d pid] by (auto simp add: followsDiagram_refl)
qed

lemma finishCampaign_keeps:
  assumes "t \<in> set (platformProductOrderInfluencers d)" and "status t \<noteq> Approved"
  shows "t \<in> set (platformProductOrderInfluencers (snd (finishCampaign flt svc d pid)))"
proof -
  have "t \<in> set (updateMany (\<lambda>p. status p = Approved) ToBePaid (platformProductOrderInfluencers d))"
    using assms by (rule updateMany_keeps [where w = "\<lambda>p. status p = Approved"])
  then show ?thesis
    using finishCampaign_participants [of flt svc d pid] assms(1) by auto
qed







section \<open>Upserts\<close>

lemma sameKey_update [simp]:
  "sameKey oid i (p\<lparr>agreedAmount := a, currency := cu\<rparr>) = sameKey oid i p"
  by (simp add: sameKey_def)

lemma participantKey_update [simp]:
  "participantKey (p\<lparr>agreedAmount := a, currency := cu\<rparr>) = participantKey p"
  by (simp add: participantKey_def)

lemma sameKey_participantKey: "sameKey oid i p \<longleftrightarrow> participantKey p = (oid, i)"
  by (auto simp add: sameKey_def participantKey_def)

lemma ofInfluencer_sameKey:
  "ofInfluencer d oid i = filter (sameKey oid i) (platformProductOrderInfluencers d)"
  unfolding ofInfluencer_def by (rule filter_cong) (simp_all add: sameKey_def)

text \<open>The two ways an upsert succeeds.\<close>

lemma upsert_Inr:
  assumes "upsert raced oid (i, a, cu) ps = Inr ps'"
  shows "(filter (sameKey oid i) ps \<noteq> [] \<and>
            ps' = map (\<lambda>p. if sameKey oid i p then p\<lparr>agreedAmount := a, currency := cu\<rparr> else p) ps)
       \<or> (filter (sameKey oid i) ps = [] \<and> (oid, i) \<notin> set raced \<and>
            ps' = ps @ [\<lparr>poiId = nextId ps, productOrderId = oid, influencerId = i,
                         agreedAmount = a, currency = cu, status = Added\<rparr>])"
  using assms
  by (auto simp add: upsert_def list_ex_iff filter_empty_conv split: if_splits)

lemma upsert_Inl:
  assumes "upsert raced oid (i, a, cu) ps = Inl e"
  shows "e = PrismaUniqueViolation \<and> filter (sameKey oid i) ps = [] \<and> (oid, i) \<in> set raced"
  using assms
  by (auto simp add: upsert_def list_ex_iff filter_empty_conv split: if_splits)

lemma filter_map_update:
  "filter (sameKey oid' j)
     (map (\<lambda>p. if sameKey oid i p then p\<lparr>agreedAmount := a, currency := cu\<rparr> else p) ps)
   = map (\<lambda>p. if sameKey oid i p then p\<lparr>agreedAmount := a, currency := cu\<rparr> else p)
       (filter (sameKey oid' j) ps)"
  by (induction ps) auto

lemma upsert_other_key:
  assumes "upsert raced oid (i, a, cu) ps = Inr ps'" and "(oid', j) \<noteq> (oid, i)"
  shows "filter (sameKey oid' j) ps' = filter (sameKey oid' j) ps"
proof -
  have n: "sameKey oid' j p \<Longrightarrow> \<not> sameKey oid i p" for p
    using assms(2) by (auto simp add: sameKey_def)
  from upsert_Inr [OF assms(1)] show ?thesis
  proof
    assume "filter (sameKey oid i) ps \<noteq> [] \<and>
            ps' = map (\<lambda>p. if sameKey oid i p then p\<lparr>agreedAmount := a, currency := cu\<rparr> else p) ps"
    then have "filter (sameKey oid' j) ps'
               = map (\<lambda>p. if sameKey oid i p then p\<lparr>agreedAmount := a, currency := cu\<rparr> else p)
                   (filter (sameKey oid' j) ps)"
      by (simp add: filter_map_update)
    also have "\<dots> = filter (sameKey oid' j) ps"
      by (rule map_idI) (simp add: n)
    finally show ?thesis .
  next
    assume "filter (sameKey oid i) ps = [] \<and> (oid, i) \<notin> set raced \<and>
            ps' = ps @ [\<lparr>poiId = nextId ps, productOrderId = oid, influencerId = i,
                         agreedAmount = a, currency = cu, status = Added\<rparr>]"
    then show ?thesis using assms(2) by (auto simp add: sameKey_def)
  qed
qed

lemma upsert_same_key:
  assumes "upsert raced oid (i, a, cu) ps = Inr ps'"
  shows "filter (sameKey oid i) ps' =
           (if filter (sameKey oid i) ps = []
            then [\<lparr>poiId = nextId ps, productOrderId = oid, influencerId = i,
                   agreedAmount = a, currency = cu, status = Added\<rparr>]
            else map (\<lambda>p. p\<lparr>agreedAmount := a, currency := cu\<rparr>) (filter (sameKey oid i) ps))"
proof -
  from upsert_Inr [OF assms(1)] show ?thesis
  proof
    assume h: "filter (sameKey oid i) ps \<noteq> [] \<and>
            ps' = map (\<lambda>p. if sameKey oid i p then p\<lparr>agreedAmount := a, currency := cu\<rparr> else p) ps"
    then have "filter (sameKey oid i) ps'
               = map (\<lambda>p. if sameKey oid i p then p\<lparr>agreedAmount := a, currency := cu\<rparr> else p)
                   (filter (sameKey oid i) ps)"
      by (simp add: filter_map_update)
    also have "\<dots> = map (\<lambda>p. p\<lparr>agreedAmount := a, currency := cu\<rparr>) (filter (sameKey oid i) ps)"
      by (rule map_cong) simp_all
    finally show ?thesis using h by simp
  next
    assume "filter (sameKey oid i) ps = [] \<and> (oid, i) \<notin> set raced \<and>
            ps' = ps @ [\<lparr>poiId = nextId ps, productOrderId = oid, influencerId = i,
                         agreedAmount = a, currency = cu, status = Added\<rparr>]"
    then show ?thesis by (simp add: sameKey_def)
  qed
qed

lemma upsert_uniqueKeys:
  assumes "upsert raced oid (i, a, cu) ps = Inr ps'" and "uniqueKeys ps"
  shows "uniqueKeys ps'"
proof -
  from upsert_Inr [OF assms(1)] show ?thesis
  proof
    assume h: "filter (sameKey oid i) ps \<noteq> [] \<and>
            ps' = map (\<lambda>p. if sameKey oid i p then p\<lparr>agreedAmount := a, currency := cu\<rparr> else p) ps"
    have "map participantKey ps' = map participantKey ps"
      using h by (simp add: comp_def if_distrib [of participantKey] cong: if_cong)
    then show ?thesis using assms(2) by (simp add: uniqueKeys_def)
  next
    assume h: "filter (sameKey oid i) ps = [] \<and> (oid, i) \<notin> set raced \<and>
            ps' = ps @ [\<lparr>poiId = nextId ps, productOrderId = oid, influencerId = i,
                         agreedAmount = a, currency = cu, status = Added\<rparr>]"
    then have "(oid, i) \<notin> set (map participantKey ps)"
      by (auto simp add: filter_empty_conv sameKey_participantKey)
    then show ?thesis using assms(2) h by (simp add: uniqueKeys_def participantKey_def)
  qed
qed


text \<open>All upserts of one call.\<close>

lemma upsertAll_uniqueKeys:
  "uniqueKeys ps \<Longrightarrow> uniqueKeys (snd (upsertAll raced oid as ps))"
proof (induction as arbitrary: ps)
  case Nil
  then show ?case by simp
next
  case (Cons x as)
  obtain i a cu where x: "x = (i, a, cu)" by (cases x)
  show ?case
  proof (cases "upsert raced oid x ps")
    case (Inl e)
    then show ?thesis using Cons by simp
  next
    case (Inr ps')
    then have "uniqueKeys ps'" using upsert_uniqueKeys Cons.prems x by blast
    then show ?thesis using Cons.IH Inr by simp
  qed
qed

lemma upsertAll_other_key:
  "oid' \<noteq> oid \<or> j \<notin> fst ` set as \<Longrightarrow>
   filter (sameKey oid' j) (snd (upsertAll raced oid as ps)) = filter (sameKey oid' j) ps"
proof (induction as arbitrary: ps)
  case Nil
  then show ?case by simp
next
  case (Cons x as)
  obtain i a cu where x: "x = (i, a, cu)" by (cases x)
  have rest: "oid' \<noteq> oid \<or> j \<notin> fst ` set as" using Cons.prems by auto
  have ne: "(oid', j) \<noteq> (oid, i)" using Cons.prems x by auto
  show ?case
  proof (cases "upsert raced oid x ps")
    case (Inl e)
    then show ?thesis using Cons.IH [OF rest] by simp
  next
    case (Inr ps')
    have "filter (sameKey oid' j) ps' = filter (sameKey oid' j) ps"
      using upsert_other_key [OF _ ne] Inr x by simp
    then show ?thesis using Cons.IH [OF rest, of ps'] Inr by simp
  qed
qed

lemma upsertAll_same_key:
  "fst (upsertAll raced oid as ps) = None \<Longrightarrow> distinct (map fst as) \<Longrightarrow> (i, a, cu) \<in> set as \<Longrightarrow>
   \<exists>n. filter (sameKey oid i) (snd (upsertAll raced oid as ps)) =
         (if filter (sameKey oid i) ps = []
          then [\<lparr>poiId = n, productOrderId = oid, influencerId = i,
                 agreedAmount = a, currency = cu, status = Added\<rparr>]
          else map (\<lambda>p. p\<lparr>agreedAmount := a, currency := cu\<rparr>) (filter (sameKey oid i) ps))"
proof (induction as arbitrary: ps)
  case Nil
  then show ?case by simp
next
  case (Cons x as)
  show ?case
  proof (cases "upsert raced oid x ps")
    case (Inl e)
    then show ?thesis using Cons.prems(1) by simp
  next
    case (Inr ps')
    have all: "upsertAll raced oid (x # as) ps = upsertAll raced oid as ps'" using Inr by simp
    have none: "fst (upsertAll raced oid as ps') = None" using Cons.prems(1) all by simp
    have d: "distinct (map fst as)" using Cons.prems(2) by simp
    show ?thesis
    proof (cases "x = (i, a, cu)")
      case True
      have "i \<notin> fst ` set as" using Cons.prems(2) True by auto
      then have "filter (sameKey oid i) (snd (upsertAll raced oid as ps')) = filter (sameKey oid i) ps'"
        by (intro upsertAll_other_key) simp
      moreover have "filter (sameKey oid i) ps' =
           (if filter (sameKey oid i) ps = []
            then [\<lparr>poiId = nextId ps, productOrderId = oid, influencerId = i,
                   agreedAmount = a, currency = cu, status = Added\<rparr>]
            else map (\<lambda>p. p\<lparr>agreedAmount := a, currency := cu\<rparr>) (filter (sameKey oid i) ps))"
        using upsert_same_key Inr True by blast
      ultimately show ?thesis unfolding all by (cases "filter (sameKey oid i) ps = []") auto
    next
      case False
      then have m: "(i, a, cu) \<in> set as" using Cons.prems(3) by simp
      obtain i' a' cu' where x: "x = (i', a', cu')" by (cases x)
      have "i' \<noteq> i" using Cons.prems(2) m x by force
      then have "(oid, i) \<noteq> (oid, i')" by simp
      then have same: "filter (sameKey oid i) ps' = filter (sameKey oid i) ps"
        using upsert_other_key Inr x by blast
      from Cons.IH [OF none d m] show ?thesis unfolding all same .
    qed
  qed
qed

lemma upsertAll_error:
  "fst (upsertAll raced oid as ps) = Some e \<Longrightarrow> e = PrismaUniqueViolation"
proof (induction as arbitrary: ps)
  case Nil
  then show ?case by simp
next
  case (Cons x as)
  obtain i a cu where x: "x = (i, a, cu)" by (cases x)
  show ?case
  proof (cases "upsert raced oid x ps")
    case (Inl e')
    then have "e' = PrismaUniqueViolation" using upsert_Inl x by blast
    then show ?thesis using Cons.prems Inl by simp
  next
    case (Inr ps')
    then show ?thesis using Cons by simp
  qed
qed

lemma upsertAll_raced:
  "x \<in> set as \<Longrightarrow> (oid, fst x) \<in> set raced \<Longrightarrow> filter (sameKey oid (fst x)) ps = [] \<Longrightarrow>
   fst (upsertAll raced oid as ps) = Some PrismaUniqueViolation"
proof (induction as arbitrary: ps)
  case Nil
  then show ?case by simp
next
  case (Cons y as)
  obtain i a cu where y: "y = (i, a, cu)" by (cases y)
  show ?case
  proof (cases "upsert raced oid y ps")
    case (Inl e)
    then have "e = PrismaUniqueViolation" using upsert_Inl y by blast
    then show ?thesis using Inl by simp
  next
    case (Inr ps')
    from upsert_Inr [OF Inr [unfolded y]]
    have ni: "fst x \<noteq> i"
      using Cons.prems(2,3) by auto
    then have "x \<in> set as" using Cons.prems(1) y by auto
    moreover have "filter (sameKey oid (fst x)) ps' = []"
      using upsert_other_key [OF Inr [unfolded y], of oid "fst x"] ni Cons.prems(3) by simp
    ultimately show ?thesis using Cons.IH Cons.prems(2) Inr by simp
  qed
qed

lemma upsertAll_again:
  "(\<And>i a cu. (i, a, cu) \<in> set as \<Longrightarrow>
       filter (sameKey oid i) ps \<noteq> [] \<and>
       (\<forall>p\<in>set (filter (sameKey oid i) ps). agreedAmount p = a \<and> currency p = cu)) \<Longrightarrow>
   upsertAll raced oid as ps = (None, ps)"
proof (induction as)
  case Nil
  then show ?case by simp
next
  case (Cons x as)
  obtain i a cu where x: "x = (i, a, cu)" by (cases x)
  have h: "filter (sameKey oid i) ps \<noteq> []"
    "\<forall>p\<in>set (filter (sameKey oid i) ps). agreedAmount p = a \<and> currency p = cu"
    using Cons.prems [of i a cu] x by simp_all
  have ex: "list_ex (sameKey oid i) ps" using h(1) by (auto simp add: list_ex_iff filter_empty_conv)
  have "map (\<lambda>p. if sameKey oid i p then p\<lparr>agreedAmount := a, currency := cu\<rparr> else p) ps = ps"
    using h(2) by (intro map_idI) auto
  then have "upsert raced oid x ps = Inr ps" by (simp add: upsert_def x ex)
  moreover have "upsertAll raced oid as ps = (None, ps)"
  proof (rule Cons.IH)
    fix j b cv
    assume "(j, b, cv) \<in> set as"
    then show "filter (sameKey oid j) ps \<noteq> [] \<and>
       (\<forall>p\<in>set (filter (sameKey oid j) ps). agreedAmount p = b \<and> currency p = cv)"
      using Cons.prems [of j b cv] by simp
  qed
  ultimately show ?case by simp
qed


section \<open>Adding influencers: the call\<close>

text \<open>The arguments of the upserts.\<close>

lemma upsertArgs_setParticipants [simp]:
  "upsertArgs svc (setParticipants d ps) t us = upsertArgs svc d t us"
  by (induction us) (simp_all cong: option.case_cong list.case_cong)

lemma upsertArgs_origin:
  "upsertArgs svc d t us = Some as \<Longrightarrow> x \<in> set as \<Longrightarrow>
   \<exists>u\<in>set us. \<exists>infl am rest.
      find (\<lambda>y. infUserId y = userId u) (influencers d) = Some infl
      \<and> filter (\<lambda>a. fst a = t) (desiredAmounts svc infl) = am # rest
      \<and> x = (infId infl, snd am, userCurrency u)"
proof (induction us arbitrary: as)
  case Nil
  then show ?case by simp
next
  case (Cons u us)
  from Cons.prems(1) obtain infl am rest as'
    where i: "find (\<lambda>y. infUserId y = userId u) (influencers d) = Some infl"
      and a: "filter (\<lambda>a. fst a = t) (desiredAmounts svc infl) = am # rest"
      and r: "upsertArgs svc d t us = Some as'"
      and e: "as = (infId infl, snd am, userCurrency u) # as'"
    by (auto split: option.splits list.splits)
  show ?case
  proof (cases "x = (infId infl, snd am, userCurrency u)")
    case True
    have "find (\<lambda>y. infUserId y = userId u) (influencers d) = Some infl
      \<and> filter (\<lambda>a. fst a = t) (desiredAmounts svc infl) = am # rest
      \<and> x = (infId infl, snd am, userCurrency u)"
      using i a True by simp
    then show ?thesis by (intro bexI [where x = u]) (blast, simp)
  next
    case False
    then have "x \<in> set as'" using Cons.prems(2) e by simp
    from Cons.IH [OF r this] obtain v where "v \<in> set us"
      "\<exists>infl am rest.
         find (\<lambda>y. infUserId y = userId v) (influencers d) = Some infl
         \<and> filter (\<lambda>a. fst a = t) (desiredAmounts svc infl) = am # rest
         \<and> x = (infId infl, snd am, userCurrency v)" by blast
    then show ?thesis by (intro bexI [where x = v]) simp_all
  qed
qed

lemma upsertArgs_member:
  "upsertArgs svc d t us = Some as \<Longrightarrow> u \<in> set us \<Longrightarrow>
   find (\<lambda>y. infUserId y = userId u) (influencers d) = Some infl \<Longrightarrow>
   filter (\<lambda>a. fst a = t) (desiredAmounts svc infl) = am # rest \<Longrightarrow>
   (infId infl, snd am, userCurrency u) \<in> set as"
proof (induction us arbitrary: as)
  case Nil
  then show ?case by simp
next
  case (Cons v us)
  from Cons.prems(1) obtain infl' am' rest' as'
    where i: "find (\<lambda>y. infUserId y = userId v) (influencers d) = Some infl'"
      and a: "filter (\<lambda>a. fst a = t) (desiredAmounts svc infl') = am' # rest'"
      and r: "upsertArgs svc d t us = Some as'"
      and e: "as = (infId infl', snd am', userCurrency v) # as'"
    by (auto split: option.splits list.splits)
  show ?case
  proof (cases "u = v")
    case True
    then show ?thesis using i a e Cons.prems(3,4) by simp
  next
    case False
    then have "u \<in> set us" using Cons.prems(2) by simp
    from Cons.IH [OF r this Cons.prems(3,4)] show ?thesis using e by simp
  qed
qed

lemma upsertArgs_distinct:
  "upsertArgs svc d t us = Some as \<Longrightarrow> distinct (map userId us) \<Longrightarrow>
   distinct (map infId (influencers d)) \<Longrightarrow> distinct (map fst as)"
proof (induction us arbitrary: as)
  case Nil
  then show ?case by simp
next
  case (Cons u us)
  from Cons.prems(1) obtain infl am rest as'
    where i: "find (\<lambda>y. infUserId y = userId u) (influencers d) = Some infl"
      and a: "filter (\<lambda>a. fst a = t) (desiredAmounts svc infl) = am # rest"
      and r: "upsertArgs svc d t us = Some as'"
      and e: "as = (infId infl, snd am, userCurrency u) # as'"
    by (auto split: option.splits list.splits)
  have d': "distinct (map fst as')" using Cons.IH [OF r] Cons.prems(2,3) by simp
  have "infId infl \<notin> fst ` set as'"
  proof
    assume "infId infl \<in> fst ` set as'"
    then obtain x where x: "x \<in> set as'" "fst x = infId infl" by auto
    from upsertArgs_origin [OF r x(1)] obtain v infl' am'
      where v: "v \<in> set us"
        and i': "find (\<lambda>y. infUserId y = userId v) (influencers d) = Some infl'"
        and x': "x = (infId infl', snd am', userCurrency v)"
      by auto
    have m: "infl \<in> set (influencers d)" "infUserId infl = userId u"
      using i by (auto simp add: find_Some_iff)
    have m': "infl' \<in> set (influencers d)" "infUserId infl' = userId v"
      using i' by (auto simp add: find_Some_iff)
    have "infId infl' = infId infl" using x(2) x' by simp
    then have "infl' = infl"
      using Cons.prems(3) m(1) m'(1) by (meson distinct_map inj_onD)
    then have "userId v = userId u" using m(2) m'(2) by simp
    moreover have "userId u \<notin> userId ` set us" using Cons.prems(2) by simp
    ultimately show False using v by (metis image_eqI)
  qed
  then show ?case using d' e by simp
qed

lemma setParticipants_twice [simp]:
  "setParticipants (setParticipants d ps) ps' = setParticipants d ps'"
  by (simp add: setParticipants_def)

lemma notExist_eq:
  "filter (\<lambda>i. find (\<lambda>u. userId u = i) (filter (\<lambda>u. userId u \<in> set ids) us) = None) ids
   = filter (\<lambda>i. i \<notin> userId ` set us) ids"
  by (rule filter_cong) (auto simp add: find_None_iff)

text \<open>The whole of \<^verbatim>\<open>addInfluencers\<close> on an existing campaign or survey, by cases.\<close>

lemma addInfluencers_cases:
  assumes f: "findUniqueOrThrow svc d pid = Inr (c, ord)"
  shows "statusNumber Finished \<le> statusNumber (orderStatus ord) \<Longrightarrow>
           addInfluencers raced svc d pid ids = (Inl Forbidden, d)"
    and "statusNumber (orderStatus ord) < statusNumber Finished \<Longrightarrow> declaredType c = None \<Longrightarrow>
           addInfluencers raced svc d pid ids = (Inl (BadRequest TypeNotDefined), d)"
    and "statusNumber (orderStatus ord) < statusNumber Finished \<Longrightarrow> declaredType c = Some t \<Longrightarrow>
         filter (\<lambda>i. i \<notin> userId ` set (users d)) ids \<noteq> [] \<Longrightarrow>
           addInfluencers raced svc d pid ids =
             (Inl (NotFound (filter (\<lambda>i. i \<notin> userId ` set (users d)) ids)), d)"
    and "statusNumber (orderStatus ord) < statusNumber Finished \<Longrightarrow> declaredType c = Some t \<Longrightarrow>
         filter (\<lambda>i. i \<notin> userId ` set (users d)) ids = [] \<Longrightarrow>
         upsertArgs svc d t (filter (\<lambda>u. userId u \<in> set ids) (users d)) = None \<Longrightarrow>
           addInfluencers raced svc d pid ids = (Inl TypeError, d)"
    and "statusNumber (orderStatus ord) < statusNumber Finished \<Longrightarrow> declaredType c = Some t \<Longrightarrow>
         filter (\<lambda>i. i \<notin> userId ` set (users d)) ids = [] \<Longrightarrow>
         upsertArgs svc d t (filter (\<lambda>u. userId u \<in> set ids) (users d)) = Some as \<Longrightarrow>
         upsertAll raced (orderId ord) as (platformProductOrderInfluencers d) = (Some e, ps') \<Longrightarrow>
           addInfluencers raced svc d pid ids = (Inl e, setParticipants d ps')"
    and "statusNumber (orderStatus ord) < statusNumber Finished \<Longrightarrow> declaredType c = Some t \<Longrightarrow>
         filter (\<lambda>i. i \<notin> userId ` set (users d)) ids = [] \<Longrightarrow>
         upsertArgs svc d t (filter (\<lambda>u. userId u \<in> set ids) (users d)) = Some as \<Longrightarrow>
         upsertAll raced (orderId ord) as (platformProductOrderInfluencers d) = (None, ps') \<Longrightarrow>
           addInfluencers raced svc d pid ids =
             (Inr (concat (map (\<lambda>a. filter (sameKey (orderId ord) (fst a)) ps') as)),
              setParticipants d ps')"
proof -
  have o: "platformProductOrderId c = orderId ord" using findUniqueOrThrow_Inr [OF f] by simp
  show "addInfluencers raced svc d pid ids = (Inl Forbidden, d)"
    if "statusNumber Finished \<le> statusNumber (orderStatus ord)"
    using that by (simp add: addInfluencers_def f)
  show "addInfluencers raced svc d pid ids = (Inl (BadRequest TypeNotDefined), d)"
    if "statusNumber (orderStatus ord) < statusNumber Finished" "declaredType c = None"
    using that by (simp add: addInfluencers_def f)
  show "addInfluencers raced svc d pid ids =
             (Inl (NotFound (filter (\<lambda>i. i \<notin> userId ` set (users d)) ids)), d)"
    if "statusNumber (orderStatus ord) < statusNumber Finished" "declaredType c = Some t"
      "filter (\<lambda>i. i \<notin> userId ` set (users d)) ids \<noteq> []"
    using that by (simp add: addInfluencers_def f notExist_eq Let_def)
  show "addInfluencers raced svc d pid ids = (Inl TypeError, d)"
    if "statusNumber (orderStatus ord) < statusNumber Finished" "declaredType c = Some t"
      "filter (\<lambda>i. i \<notin> userId ` set (users d)) ids = []"
      "upsertArgs svc d t (filter (\<lambda>u. userId u \<in> set ids) (users d)) = None"
    using that by (simp add: addInfluencers_def f notExist_eq Let_def)
  show "addInfluencers raced svc d pid ids = (Inl e, setParticipants d ps')"
    if "statusNumber (orderStatus ord) < statusNumber Finished" "declaredType c = Some t"
      "filter (\<lambda>i. i \<notin> userId ` set (users d)) ids = []"
      "upsertArgs svc d t (filter (\<lambda>u. userId u \<in> set ids) (users d)) = Some as"
      "upsertAll raced (orderId ord) as (platformProductOrderInfluencers d) = (Some e, ps')"
    using that by (simp add: addInfluencers_def f notExist_eq Let_def o)
  show "addInfluencers raced svc d pid ids =
             (Inr (concat (map (\<lambda>a. filter (sameKey (orderId ord) (fst a)) ps') as)),
              setParticipants d ps')"
    if "statusNumber (orderStatus ord) < statusNumber Finished" "declaredType c = Some t"
      "filter (\<lambda>i. i \<notin> userId ` set (users d)) ids = []"
      "upsertArgs svc d t (filter (\<lambda>u. userId u \<in> set ids) (users d)) = Some as"
      "upsertAll raced (orderId ord) as (platformProductOrderInfluencers d) = (None, ps')"
    using that by (simp add: addInfluencers_def f notExist_eq Let_def o)
qed

text \<open>A call that succeeds, taken apart.\<close>

lemma addInfluencers_Inr:
  assumes f: "findUniqueOrThrow svc d pid = Inr (c, ord)"
    and call: "addInfluencers raced svc d pid ids = (Inr rs, d1)"
  shows "\<exists>t as. statusNumber (orderStatus ord) < statusNumber Finished
          \<and> declaredType c = Some t
          \<and> filter (\<lambda>i. i \<notin> userId ` set (users d)) ids = []
          \<and> upsertArgs svc d t (filter (\<lambda>u. userId u \<in> set ids) (users d)) = Some as
          \<and> upsertAll raced (orderId ord) as (platformProductOrderInfluencers d)
              = (None, platformProductOrderInfluencers d1)
          \<and> d1 = setParticipants d (platformProductOrderInfluencers d1)
          \<and> rs = concat (map (\<lambda>a. filter (sameKey (orderId ord) (fst a))
                                      (platformProductOrderInfluencers d1)) as)"
proof -
  note cs = addInfluencers_cases [OF f, where raced = raced and ids = ids]
  have s: "statusNumber (orderStatus ord) < statusNumber Finished"
  proof (rule ccontr)
    assume "\<not> statusNumber (orderStatus ord) < statusNumber Finished"
    then have "statusNumber Finished \<le> statusNumber (orderStatus ord)" by simp
    from cs(1) [OF this] show False using call by simp
  qed
  obtain t where t: "declaredType c = Some t"
  proof (cases "declaredType c")
    case None
    from cs(2) [OF s None] show ?thesis using call by simp
  next
    case (Some t)
    then show ?thesis using that by simp
  qed
  have m: "filter (\<lambda>i. i \<notin> userId ` set (users d)) ids = []"
  proof (rule ccontr)
    assume "filter (\<lambda>i. i \<notin> userId ` set (users d)) ids \<noteq> []"
    from cs(3) [OF s t this] show False using call by simp
  qed
  obtain as where as: "upsertArgs svc d t (filter (\<lambda>u. userId u \<in> set ids) (users d)) = Some as"
  proof (cases "upsertArgs svc d t (filter (\<lambda>u. userId u \<in> set ids) (users d))")
    case None
    from cs(4) [OF s t m None] show ?thesis using call by simp
  next
    case (Some as)
    then show ?thesis using that by simp
  qed
  obtain e ps' where u: "upsertAll raced (orderId ord) as (platformProductOrderInfluencers d) = (e, ps')"
    by (cases "upsertAll raced (orderId ord) as (platformProductOrderInfluencers d)")
  have e: "e = None"
  proof (cases e)
    case None
    then show ?thesis .
  next
    case (Some e')
    from cs(5) [OF s t m as u [unfolded Some]] show ?thesis using call by simp
  qed
  from cs(6) [OF s t m as u [unfolded e]] call
  have "d1 = setParticipants d ps'"
    and "rs = concat (map (\<lambda>a. filter (sameKey (orderId ord) (fst a)) ps') as)" by simp_all
  then show ?thesis using s t m as u e by simp
qed


lemma uniqueKeys_at_most_one:
  "uniqueKeys ps \<Longrightarrow> filter (sameKey oid i) ps = [] \<or> (\<exists>p. filter (sameKey oid i) ps = [p])"
proof (induction ps)
  case Nil
  then show ?case by simp
next
  case (Cons q ps)
  have u: "uniqueKeys ps" and n: "participantKey q \<notin> participantKey ` set ps"
    using Cons.prems by (simp_all add: uniqueKeys_def)
  show ?case
  proof (cases "sameKey oid i q")
    case True
    then have "participantKey q = (oid, i)" by (simp add: sameKey_participantKey)
    then have "(oid, i) \<notin> participantKey ` set ps" using n by simp
    then have "\<forall>x\<in>set ps. participantKey x \<noteq> (oid, i)" by (metis image_eqI)
    then have "filter (sameKey oid i) ps = []"
      by (simp add: filter_empty_conv sameKey_participantKey)
    then show ?thesis using True by simp
  next
    case False
    then show ?thesis using Cons.IH [OF u] by simp
  qed
qed

text \<open>The row of a named user's influencer after a call that succeeds.\<close>

lemma addInfluencers_row:
  assumes f: "findUniqueOrThrow svc d pid = Inr (c, ord)"
    and pk: "distinct (map userId (users d))" "distinct (map infId (influencers d))"
    and call: "addInfluencers raced svc d pid ids = (Inr rs, d1)"
    and u: "u \<in> set (users d)" "userId u \<in> set ids"
    and infl: "find (\<lambda>y. infUserId y = userId u) (influencers d) = Some infl"
    and t: "declaredType c = Some t"
    and am: "filter (\<lambda>a. fst a = t) (desiredAmounts svc infl) = am # rest"
  shows "\<exists>n. ofInfluencer d1 (orderId ord) (infId infl) =
           (if ofInfluencer d (orderId ord) (infId infl) = []
            then [\<lparr>poiId = n, productOrderId = orderId ord, influencerId = infId infl,
                   agreedAmount = snd am, currency = userCurrency u, status = Added\<rparr>]
            else map (\<lambda>p. p\<lparr>agreedAmount := snd am, currency := userCurrency u\<rparr>)
                   (ofInfluencer d (orderId ord) (infId infl)))"
proof -
  let ?us = "filter (\<lambda>u. userId u \<in> set ids) (users d)"
  from addInfluencers_Inr [OF f call] obtain t' as
    where t': "declaredType c = Some t'"
      and as: "upsertArgs svc d t' ?us = Some as"
      and all: "upsertAll raced (orderId ord) as (platformProductOrderInfluencers d)
                  = (None, platformProductOrderInfluencers d1)"
    by blast
  have tt: "t' = t" using t t' by simp
  have "u \<in> set ?us" using u by simp
  then have m: "(infId infl, snd am, userCurrency u) \<in> set as"
    using upsertArgs_member [OF as [unfolded tt] _ infl am] by simp
  have "distinct (map userId ?us)" using pk(1) by (simp add: distinct_map_filter)
  then have dd: "distinct (map fst as)" using upsertArgs_distinct [OF as _ pk(2)] by simp
  have n: "fst (upsertAll raced (orderId ord) as (platformProductOrderInfluencers d)) = None"
    using all by simp
  from upsertAll_same_key [OF n dd m] show ?thesis
    unfolding ofInfluencer_sameKey all by simp
qed

text \<open>The same call once more changes nothing, whatever races.\<close>

lemma addInfluencers_again:
  assumes f: "findUniqueOrThrow svc d pid = Inr (c, ord)"
    and pk: "distinct (map userId (users d))" "distinct (map infId (influencers d))"
    and call: "addInfluencers raced svc d pid ids = (Inr rs, d1)"
  shows "addInfluencers raced' svc d1 pid ids = (Inr rs, d1)"
proof -
  let ?us = "filter (\<lambda>u. userId u \<in> set ids) (users d)"
  let ?ps = "platformProductOrderInfluencers d"
  let ?ps1 = "platformProductOrderInfluencers d1"
  from addInfluencers_Inr [OF f call] obtain t as
    where s: "statusNumber (orderStatus ord) < statusNumber Finished"
      and t: "declaredType c = Some t"
      and ex: "filter (\<lambda>i. i \<notin> userId ` set (users d)) ids = []"
      and as: "upsertArgs svc d t ?us = Some as"
      and all: "upsertAll raced (orderId ord) as ?ps = (None, ?ps1)"
      and d1: "d1 = setParticipants d ?ps1"
      and rs: "rs = concat (map (\<lambda>a. filter (sameKey (orderId ord) (fst a)) ?ps1) as)"
    by blast
  have f1: "findUniqueOrThrow svc d1 pid = Inr (c, ord)" by (subst d1) (simp add: f)
  have us1: "users d1 = users d" by (subst d1) simp
  have as1: "upsertArgs svc d1 t (filter (\<lambda>u. userId u \<in> set ids) (users d1)) = Some as"
    unfolding us1 by (subst d1) (simp add: as)
  have "distinct (map userId ?us)" using pk(1) by (simp add: distinct_map_filter)
  then have dd: "distinct (map fst as)" using upsertArgs_distinct [OF as _ pk(2)] by simp
  have n: "fst (upsertAll raced (orderId ord) as ?ps) = None" using all by simp
  have again: "upsertAll raced' (orderId ord) as ?ps1 = (None, ?ps1)"
  proof (rule upsertAll_again)
    fix i a cu
    assume m: "(i, a, cu) \<in> set as"
    from upsertAll_same_key [OF n dd m] obtain k where
      k: "filter (sameKey (orderId ord) i) ?ps1 =
         (if filter (sameKey (orderId ord) i) ?ps = []
          then [\<lparr>poiId = k, productOrderId = orderId ord, influencerId = i,
                 agreedAmount = a, currency = cu, status = Added\<rparr>]
          else map (\<lambda>p. p\<lparr>agreedAmount := a, currency := cu\<rparr>)
                 (filter (sameKey (orderId ord) i) ?ps))"
      unfolding all by auto
    show "filter (sameKey (orderId ord) i) ?ps1 \<noteq> [] \<and>
       (\<forall>p\<in>set (filter (sameKey (orderId ord) i) ?ps1). agreedAmount p = a \<and> currency p = cu)"
      unfolding k by (cases "filter (sameKey (orderId ord) i) ?ps = []") auto
  qed
  have "addInfluencers raced' svc d1 pid ids =
          (Inr (concat (map (\<lambda>a. filter (sameKey (orderId ord) (fst a)) ?ps1) as)),
           setParticipants d1 ?ps1)"
    using addInfluencers_cases(6) [OF f1 s t _ as1 again] ex us1 by simp
  moreover have "setParticipants d1 ?ps1 = d1" by (subst (3) d1, subst (1) d1) simp
  ultimately show ?thesis using rs by simp
qed


section \<open>Adding twice\<close>

lemmas add_simps = addInfluencers_def upsert_def nextId_def sameKey_def Let_def

text \<open>The order service: a pair that has a row, and a pair that gets one.\<close>

lemma orderServiceAddInfluencers_existing:
  assumes "list_ex (sameKey oid k) (platformProductOrderInfluencers d)"
  shows "orderServiceAddInfluencers statusOfNumber d (oid, k) = (Inl Conflict, d)"
  using assms
  by (simp add: orderServiceAddInfluencers_def split: option.splits list.splits)

lemma orderServiceAddInfluencers_Inr:
  assumes "orderServiceAddInfluencers statusOfNumber d (oid, k) = (Inr r, d2)"
  shows "\<not> list_ex (sameKey oid k) (platformProductOrderInfluencers d)"
    and "d2 = setParticipants d (platformProductOrderInfluencers d @ [r])"
    and "productOrderId r = oid" and "influencerId r = k"
    and "\<exists>usr\<in>set (users d). status r = statusOfNumber (userStatus usr)
                              \<and> currency r = userCurrency usr"
proof -
  obtain usr where usr: "find (\<lambda>u. list_ex (\<lambda>infl. infId infl = k \<and> infUserId infl = userId u)
                                      (influencers d)) (users d) = Some usr"
    using assms by (auto simp add: orderServiceAddInfluencers_def split: option.splits)
  then have m: "usr \<in> set (users d)" by (auto simp add: find_Some_iff)
  obtain a rest where a: "concat (map influencerCampaignAmounts
                            (filter (\<lambda>infl. infId infl = k) (influencers d))) = a # rest"
    using assms usr by (auto simp add: orderServiceAddInfluencers_def split: list.splits)
  show n: "\<not> list_ex (sameKey oid k) (platformProductOrderInfluencers d)"
    using assms usr a by (auto simp add: orderServiceAddInfluencers_def split: if_splits)
  have o: "\<not> list_all (\<lambda>ord. orderId ord \<noteq> oid) (platformProductOrders d)"
    using assms usr a n by (auto simp add: orderServiceAddInfluencers_def split: if_splits)
  have r: "r = \<lparr>poiId = nextId (platformProductOrderInfluencers d),
                productOrderId = oid, influencerId = k, agreedAmount = snd a,
                currency = userCurrency usr, status = statusOfNumber (userStatus usr)\<rparr>"
    using assms usr a n o by (simp add: orderServiceAddInfluencers_def Let_def)
  show "d2 = setParticipants d (platformProductOrderInfluencers d @ [r])"
    using assms usr a n o by (auto simp add: orderServiceAddInfluencers_def Let_def)
  show "productOrderId r = oid" by (simp add: r)
  show "influencerId r = k" by (simp add: r)
  show "\<exists>usr\<in>set (users d). status r = statusOfNumber (userStatus usr)
                              \<and> currency r = userCurrency usr"
    using m by (intro bexI [of _ usr]) (simp_all add: r)
qed

lemma orderServiceAddInfluencers_created:
  assumes call: "orderServiceAddInfluencers statusOfNumber d (oid, k) = (Inr r, d2)"
    and uk: "uniqueKeys (platformProductOrderInfluencers d)"
  shows "platformProductOrderInfluencers d2 = platformProductOrderInfluencers d @ [r]
       \<and> ofInfluencer d2 oid k = [r]
       \<and> uniqueKeys (platformProductOrderInfluencers d2)
       \<and> orderServiceAddInfluencers statusOfNumber d2 (oid, k) = (Inl Conflict, d2)"
proof -
  note h = orderServiceAddInfluencers_Inr [OF call]
  have none: "filter (sameKey oid k) (platformProductOrderInfluencers d) = []"
    using h(1) by (auto simp add: filter_empty_conv list_ex_iff)
  have key: "sameKey oid k r" using h(3,4) by (simp add: sameKey_def)
  have p: "platformProductOrderInfluencers d2 = platformProductOrderInfluencers d @ [r]"
    by (simp add: h(2))
  have one: "ofInfluencer d2 oid k = [r]"
    using none key by (simp add: ofInfluencer_sameKey p)
  have fresh: "participantKey r \<notin> set (map participantKey (platformProductOrderInfluencers d))"
  proof
    assume "participantKey r \<in> set (map participantKey (platformProductOrderInfluencers d))"
    then obtain q where q: "q \<in> set (platformProductOrderInfluencers d)"
      "participantKey q = participantKey r" by auto
    then have "sameKey oid k q" using h(3,4) by (simp add: sameKey_def participantKey_def)
    then show False using q(1) h(1) by (auto simp add: list_ex_iff)
  qed
  have k: "uniqueKeys (platformProductOrderInfluencers d2)"
    using uk fresh by (simp add: uniqueKeys_def p)
  have "list_ex (sameKey oid k) (platformProductOrderInfluencers d2)"
    using key by (simp add: p)
  then have again: "orderServiceAddInfluencers statusOfNumber d2 (oid, k) = (Inl Conflict, d2)"
    by (rule orderServiceAddInfluencers_existing)
  show ?thesis using p one k again by (intro conjI)
qed

text \<open>
  Claim C7, as the code has it. Let the participant table satisfy the uniqueness
  constraint and the user and influencer tables have distinct ids, and let
  \<^verbatim>\<open>addInfluencers\<close> succeed on an existing campaign or survey. Then the table still
  satisfies the constraint, and for every named user the pair of the order and the
  user's influencer has exactly one row: a new row at Added with the desired amount and
  the user's currency when the pair had none, and otherwise the row it had, with the
  same id and status and only the amount and the currency written. Calling
  \<^verbatim>\<open>addInfluencers\<close> again on the result, with the same ids and whatever concurrent
  inserts, succeeds, returns the same rows and leaves the database as it is: no second
  row is created.

  \<^verbatim>\<open>PlatformProductOrderService.addInfluencers\<close> creates and does not upsert: for a
  pair that has a row it fails with Conflict and leaves the database, and so the
  amount and the currency of the row, as they are; when it succeeds it has appended
  one row, the only row of the pair, the constraint still holds, and a second call
  for the pair fails with Conflict and changes nothing.
\<close>

theorem addInfluencers_twice:
  assumes f: "findUniqueOrThrow svc d pid = Inr (c, ord)"
    and uk: "uniqueKeys (platformProductOrderInfluencers d)"
    and pk: "distinct (map userId (users d))" "distinct (map infId (influencers d))"
    and call: "addInfluencers raced svc d pid ids = (Inr rs, d1)"
    and u: "u \<in> set (users d)" "userId u \<in> set ids"
    and infl: "find (\<lambda>y. infUserId y = userId u) (influencers d) = Some infl"
    and t: "declaredType c = Some t"
    and am: "filter (\<lambda>a. fst a = t) (desiredAmounts svc infl) = am # rest"
  shows "uniqueKeys (platformProductOrderInfluencers d1)
       \<and> length (ofInfluencer d1 (orderId ord) (infId infl)) = 1
       \<and> (ofInfluencer d (orderId ord) (infId infl) = [] \<longrightarrow>
            (\<exists>n. ofInfluencer d1 (orderId ord) (infId infl) =
                   [\<lparr>poiId = n, productOrderId = orderId ord, influencerId = infId infl,
                     agreedAmount = snd am, currency = userCurrency u, status = Added\<rparr>]))
       \<and> (\<forall>p. ofInfluencer d (orderId ord) (infId infl) = [p] \<longrightarrow>
              ofInfluencer d1 (orderId ord) (infId infl) =
                [p\<lparr>agreedAmount := snd am, currency := userCurrency u\<rparr>])
       \<and> (\<forall>raced'. addInfluencers raced' svc d1 pid ids = (Inr rs, d1))
       \<and> (list_ex (sameKey oid k) (platformProductOrderInfluencers d) \<longrightarrow>
            orderServiceAddInfluencers statusOfNumber d (oid, k) = (Inl Conflict, d))
       \<and> (orderServiceAddInfluencers statusOfNumber d (oid, k) = (Inr r, d2) \<longrightarrow>
            platformProductOrderInfluencers d2 = platformProductOrderInfluencers d @ [r]
          \<and> ofInfluencer d2 oid k = [r]
          \<and> uniqueKeys (platformProductOrderInfluencers d2)
          \<and> orderServiceAddInfluencers statusOfNumber d2 (oid, k) = (Inl Conflict, d2))"
proof -
  let ?old = "ofInfluencer d (orderId ord) (infId infl)"
  let ?new = "ofInfluencer d1 (orderId ord) (infId infl)"
  from addInfluencers_Inr [OF f call] obtain as
    where all: "upsertAll raced (orderId ord) as (platformProductOrderInfluencers d)
                  = (None, platformProductOrderInfluencers d1)"
    by blast
  have k1: "uniqueKeys (platformProductOrderInfluencers d1)"
    using upsertAll_uniqueKeys [OF uk, of raced "orderId ord" as] all by simp
  from addInfluencers_row [OF f pk call u infl t am] obtain n where
    n: "?new = (if ?old = []
            then [\<lparr>poiId = n, productOrderId = orderId ord, influencerId = infId infl,
                   agreedAmount = snd am, currency = userCurrency u, status = Added\<rparr>]
            else map (\<lambda>p. p\<lparr>agreedAmount := snd am, currency := userCurrency u\<rparr>) ?old)"
    by blast
  have one: "?old = [] \<or> (\<exists>p. ?old = [p])"
    using uniqueKeys_at_most_one [OF uk] by (simp add: ofInfluencer_sameKey)
  have len: "length ?new = 1" using one n by auto
  have fresh: "?old = [] \<longrightarrow>
            (\<exists>n. ?new = [\<lparr>poiId = n, productOrderId = orderId ord, influencerId = infId infl,
                     agreedAmount = snd am, currency = userCurrency u, status = Added\<rparr>])"
    using n by auto
  have inplace: "\<forall>p. ?old = [p] \<longrightarrow> ?new = [p\<lparr>agreedAmount := snd am, currency := userCurrency u\<rparr>]"
    using n by auto
  have again: "\<forall>raced'. addInfluencers raced' svc d1 pid ids = (Inr rs, d1)"
    using addInfluencers_again [OF f pk call] by blast
  have existing: "list_ex (sameKey oid k) (platformProductOrderInfluencers d) \<longrightarrow>
            orderServiceAddInfluencers statusOfNumber d (oid, k) = (Inl Conflict, d)"
    using orderServiceAddInfluencers_existing by blast
  have created: "orderServiceAddInfluencers statusOfNumber d (oid, k) = (Inr r, d2) \<longrightarrow>
            platformProductOrderInfluencers d2 = platformProductOrderInfluencers d @ [r]
          \<and> ofInfluencer d2 oid k = [r]
          \<and> uniqueKeys (platformProductOrderInfluencers d2)
          \<and> orderServiceAddInfluencers statusOfNumber d2 (oid, k) = (Inl Conflict, d2)"
    using orderServiceAddInfluencers_created [OF _ uk] by blast
  show ?thesis
    using k1 len fresh inplace again existing created by (intro conjI)
qed

text \<open>
  The claim as stated covers the order service too. There the second call for a pair
  does not update the record: in order 100 the row of influencer 10 has the amount
  500 and the influencer's desired amount is 700; the call fails with Conflict and the
  row keeps 500. On an empty table the first call creates the row, with the status of
  the user's status number, and the second call fails with Conflict.
\<close>

theorem orderService_second_call_Conflict:
  "orderServiceAddInfluencers exampleStatusOfNumber (exampleDb [row 1 100 10 Matching]) (100, 10)
     = (Inl Conflict, exampleDb [row 1 100 10 Matching])
   \<and> agreedAmount (row 1 100 10 Matching) = 500
   \<and> concat (map influencerCampaignAmounts
        (filter (\<lambda>infl. infId infl = 10) (influencers (exampleDb [row 1 100 10 Matching]))))
       = [(1, 700)]
   \<and> orderServiceAddInfluencers exampleStatusOfNumber (exampleDb []) (100, 10)
     = (Inr ((row 1 100 10 ToBeAnswered)\<lparr>agreedAmount := 700\<rparr>),
        exampleDb [(row 1 100 10 ToBeAnswered)\<lparr>agreedAmount := 700\<rparr>])
   \<and> orderServiceAddInfluencers exampleStatusOfNumber
        (exampleDb [(row 1 100 10 ToBeAnswered)\<lparr>agreedAmount := 700\<rparr>]) (100, 10)
     = (Inl Conflict, exampleDb [(row 1 100 10 ToBeAnswered)\<lparr>agreedAmount := 700\<rparr>])"
  by (simp add: orderServiceAddInfluencers_def exampleStatusOfNumber_def nextId_def sameKey_def
      Let_def ex_simps)

theorem addInfluencers_twice_witness:
  "(let d1 = exampleDb [(row 1 100 10 Matching)\<lparr>agreedAmount := 700\<rparr>,
                        (row 2 100 20 Added)\<lparr>agreedAmount := 900, currency := 840\<rparr>]
    in addInfluencers [] CampaignService (exampleDb [row 1 100 10 Matching]) 1 [1, 2]
         = (Inr (platformProductOrderInfluencers d1), d1)
     \<and> addInfluencers [(100, 10), (100, 20)] CampaignService d1 1 [1, 2]
         = (Inr (platformProductOrderInfluencers d1), d1)
     \<and> ofInfluencer d1 100 10 = [(row 1 100 10 Matching)\<lparr>agreedAmount := 700\<rparr>]
     \<and> uniqueKeys (platformProductOrderInfluencers d1)
     \<and> orderServiceAddInfluencers exampleStatusOfNumber (exampleDb [row 1 100 10 Matching]) (100, 10)
         = (Inl Conflict, exampleDb [row 1 100 10 Matching])
     \<and> orderServiceAddInfluencers exampleStatusOfNumber
           (exampleDb [row 1 100 10 Matching,
                       (row 2 100 20 ToBeAnswered)\<lparr>agreedAmount := 900, currency := 840\<rparr>]) (100, 20)
         = (Inl Conflict,
            exampleDb [row 1 100 10 Matching,
                       (row 2 100 20 ToBeAnswered)\<lparr>agreedAmount := 900, currency := 840\<rparr>]))"
proof -
  let ?d = "exampleDb [row 1 100 10 Matching]"
  let ?d1 = "exampleDb [(row 1 100 10 Matching)\<lparr>agreedAmount := 700\<rparr>,
                        (row 2 100 20 Added)\<lparr>agreedAmount := 900, currency := 840\<rparr>]"
  let ?c = "\<lparr>productId = 1, platformProductOrderId = 100, declaredType = Some 1\<rparr>"
  let ?o = "\<lparr>orderId = 100, orderStatus = OnGoing\<rparr>"
  let ?u = "\<lparr>userId = 1, userCurrency = 978, userStatus = 4\<rparr>"
  let ?i = "\<lparr>infId = 10, infUserId = 1, influencerCampaignAmounts = [(1, 700)],
            influencerSurveyAmounts = [(1, 70)]\<rparr>"
  have f: "findUniqueOrThrow CampaignService ?d 1 = Inr (?c, ?o)" by (simp add: ex_simps)
  have uk: "uniqueKeys (platformProductOrderInfluencers ?d)"
    by (simp add: uniqueKeys_def participantKey_def ex_simps)
  have pk1: "distinct (map userId (users ?d))" by (simp add: ex_simps)
  have pk2: "distinct (map infId (influencers ?d))" by (simp add: ex_simps)
  have call: "addInfluencers [] CampaignService ?d 1 [1, 2]
                = (Inr (platformProductOrderInfluencers ?d1), ?d1)"
    by (simp add: add_simps ex_simps)
  have u1: "?u \<in> set (users ?d)" by (simp add: ex_simps)
  have u2: "userId ?u \<in> set [1, 2]" by simp
  have i: "find (\<lambda>y. infUserId y = userId ?u) (influencers ?d) = Some ?i" by (simp add: ex_simps)
  have t: "declaredType ?c = Some 1" by simp
  have am: "filter (\<lambda>a. fst a = 1) (desiredAmounts CampaignService ?i) = (1, 700) # []" by simp
  have o: "ofInfluencer ?d (orderId ?o) (infId ?i) = [row 1 100 10 Matching]" by (simp add: ex_simps)
  let ?r = "(row 2 100 20 ToBeAnswered)\<lparr>agreedAmount := 900, currency := 840\<rparr>"
  let ?d2 = "exampleDb [row 1 100 10 Matching, ?r]"
  have ex: "list_ex (sameKey 100 10) (platformProductOrderInfluencers ?d)"
    by (simp add: sameKey_def ex_simps)
  have cr: "orderServiceAddInfluencers exampleStatusOfNumber ?d (100, 20) = (Inr ?r, ?d2)"
    by (simp add: orderServiceAddInfluencers_def exampleStatusOfNumber_def nextId_def sameKey_def
        Let_def ex_simps)
  note w = addInfluencers_twice [OF f uk pk1 pk2 call u1 u2 i t am,
      where statusOfNumber = exampleStatusOfNumber and oid = 100 and k = 10]
  note w' = addInfluencers_twice [OF f uk pk1 pk2 call u1 u2 i t am,
      where statusOfNumber = exampleStatusOfNumber and oid = 100 and k = 20
        and r = ?r and ?d2.0 = ?d2]
  note tail = w [THEN conjunct2, THEN conjunct2, THEN conjunct2, THEN conjunct2, THEN conjunct2]
  note tail' = w' [THEN conjunct2, THEN conjunct2, THEN conjunct2, THEN conjunct2, THEN conjunct2]
  have os1: "orderServiceAddInfluencers exampleStatusOfNumber ?d (100, 10) = (Inl Conflict, ?d)"
    using tail [THEN conjunct1] ex by (rule mp)
  have os2: "orderServiceAddInfluencers exampleStatusOfNumber ?d2 (100, 20) = (Inl Conflict, ?d2)"
    using tail' [THEN conjunct2, THEN mp, OF cr] by simp
  have a: "addInfluencers [(100, 10), (100, 20)] CampaignService ?d1 1 [1, 2]
             = (Inr (platformProductOrderInfluencers ?d1), ?d1)"
    by (rule w [THEN conjunct2, THEN conjunct2, THEN conjunct2, THEN conjunct2, THEN conjunct1,
                THEN spec])
  have b: "ofInfluencer ?d1 100 10 = [(row 1 100 10 Matching)\<lparr>agreedAmount := 700\<rparr>]"
    using w [THEN conjunct2, THEN conjunct2, THEN conjunct2, THEN conjunct1, THEN spec, THEN mp, OF o]
    by (simp add: row_def)
  have k: "uniqueKeys (platformProductOrderInfluencers ?d1)" by (rule w [THEN conjunct1])
  show ?thesis
    unfolding Let_def using call a b k os1 os2 by simp
qed

section \<open>Adding influencers: the contract\<close>

text \<open>The errors of \<^verbatim>\<open>addInfluencers\<close>, and of the order service.\<close>

lemma addInfluencers_not_Conflict:
  assumes f: "findUniqueOrThrow svc d pid = Inr (c, ord)"
  shows "fst (addInfluencers raced svc d pid ids) \<noteq> Inl Conflict"
proof (cases "statusNumber Finished \<le> statusNumber (orderStatus ord)")
  case True
  then show ?thesis by (simp add: addInfluencers_cases(1) [OF f])
next
  case False
  then have s: "statusNumber (orderStatus ord) < statusNumber Finished" by simp
  show ?thesis
  proof (cases "declaredType c")
    case None
    then show ?thesis by (simp add: addInfluencers_cases(2) [OF f s])
  next
    case (Some t)
    show ?thesis
    proof (cases "filter (\<lambda>i. i \<notin> userId ` set (users d)) ids = []")
      case False
      then show ?thesis by (simp add: addInfluencers_cases(3) [OF f s Some])
    next
      case True
      show ?thesis
      proof (cases "upsertArgs svc d t (filter (\<lambda>u. userId u \<in> set ids) (users d))")
        case None
        then show ?thesis by (simp add: addInfluencers_cases(4) [OF f s Some True])
      next
        case (Some as)
        obtain r ps' where u: "upsertAll raced (orderId ord) as (platformProductOrderInfluencers d) = (r, ps')"
          by (cases "upsertAll raced (orderId ord) as (platformProductOrderInfluencers d)")
        show ?thesis
        proof (cases r)
          case None
          then show ?thesis
            using addInfluencers_cases(6) [OF f s \<open>declaredType c = Some t\<close> True Some, of raced ps'] u
            by simp
        next
          case (Some e)
          have "e = PrismaUniqueViolation"
            using upsertAll_error [of raced "orderId ord" as "platformProductOrderInfluencers d" e] u Some
            by simp
          then show ?thesis
            using addInfluencers_cases(5) [OF f s \<open>declaredType c = Some t\<close> True
                \<open>upsertArgs svc d t (filter (\<lambda>u. userId u \<in> set ids) (users d)) = Some as\<close>,
                of raced e ps'] u Some
            by simp
        qed
      qed
    qed
  qed
qed

lemma addInfluencers_race:
  assumes f: "findUniqueOrThrow svc d pid = Inr (c, ord)"
    and s: "statusNumber (orderStatus ord) < statusNumber Finished"
    and t: "declaredType c = Some t"
    and ex: "filter (\<lambda>i. i \<notin> userId ` set (users d)) ids = []"
    and as: "upsertArgs svc d t (filter (\<lambda>u. userId u \<in> set ids) (users d)) = Some as"
    and x: "x \<in> set as" "(orderId ord, fst x) \<in> set raced"
    and none: "ofInfluencer d (orderId ord) (fst x) = []"
  shows "fst (addInfluencers raced svc d pid ids) = Inl PrismaUniqueViolation"
proof -
  have "fst (upsertAll raced (orderId ord) as (platformProductOrderInfluencers d))
          = Some PrismaUniqueViolation"
    using x none by (intro upsertAll_raced) (simp_all add: ofInfluencer_sameKey)
  then obtain ps' where
    "upsertAll raced (orderId ord) as (platformProductOrderInfluencers d)
       = (Some PrismaUniqueViolation, ps')"
    by (cases "upsertAll raced (orderId ord) as (platformProductOrderInfluencers d)") simp
  then show ?thesis
    using addInfluencers_cases(5) [OF f s t ex as] by simp
qed

lemma orderServiceAddInfluencers_Inl:
  assumes "orderServiceAddInfluencers statusOfNumber d (oid, k) = (Inl e, d2)"
  shows "e = Conflict \<and> d2 = d"
  using assms
  by (auto simp add: orderServiceAddInfluencers_def Let_def
      split: option.splits list.splits if_splits)





end
